theory Spec2Isabelle
  imports Main
begin

section \<open>Strings\<close>

text \<open>
  JavaScript strings are modelled as \<^typ>\<open>string\<close>. The keyword lists of the bot are
  plain ASCII, and the model of \<open>toLowerCase\<close> and \<open>trim\<close> is the ASCII one: the letters
  \<open>A\<close> to \<open>Z\<close> are mapped to \<open>a\<close> to \<open>z\<close>, the characters tab, line feed, vertical tab,
  form feed, carriage return and space are white space, every other character is left
  alone.
\<close>

definition toLowerChar :: "char \<Rightarrow> char" where
  "toLowerChar c =
     (let n = (of_char c :: nat) in if 65 \<le> n \<and> n \<le> 90 then char_of (n + 32) else c)"

definition toLowerCase :: "string \<Rightarrow> string" where
  "toLowerCase s = map toLowerChar s"

definition isWhiteSpace :: "char \<Rightarrow> bool" where
  "isWhiteSpace c = (let n = (of_char c :: nat) in (9 \<le> n \<and> n \<le> 13) \<or> n = 32)"

definition trim :: "string \<Rightarrow> string" where
  "trim s = rev (dropWhile isWhiteSpace (rev (dropWhile isWhiteSpace s)))"

text \<open>\<open>s.includes(sub)\<close>: \<open>sub\<close> occurs in \<open>s\<close> as a contiguous substring.\<close>

fun str_includes :: "string \<Rightarrow> string \<Rightarrow> bool" where
  "str_includes [] sub = (sub = [])"
| "str_includes (c # cs) sub = (take (length sub) (c # cs) = sub \<or> str_includes cs sub)"

section \<open>The cache store\<close>

text \<open>
  \<open>articleCache\<close> is a JavaScript \<open>Set\<close> and \<open>titleCache\<close> a \<open>Map\<close>; both iterate in
  insertion order. A \<open>Set\<close> is the list of its elements in insertion order (without
  repetition), a \<open>Map\<close> the list of its key/value pairs in insertion order. The element
  type of the set is left open: the identifier of an article is whatever
  \<open>article.guid || article.link\<close> evaluates to.
\<close>

definition MAX_CACHE_SIZE :: nat where
  "MAX_CACHE_SIZE = 1000"

text \<open>\<open>Set.prototype.add\<close>: an element already present keeps its place.\<close>

definition set_add :: "'a \<Rightarrow> 'a list \<Rightarrow> 'a list" where
  "set_add x xs = (if x \<in> set xs then xs else xs @ [x])"

text \<open>\<open>Map.prototype.set\<close>: a key already present keeps its place and gets the new value.\<close>

fun map_set :: "'k \<Rightarrow> 'v \<Rightarrow> ('k \<times> 'v) list \<Rightarrow> ('k \<times> 'v) list" where
  "map_set k v [] = [(k, v)]"
| "map_set k v ((k', v') # kvs) =
     (if k = k' then (k, v) # kvs else (k', v') # map_set k v kvs)"

text \<open>\<open>xs.slice(-n)\<close>: the last \<open>n\<close> elements, all of them when there are fewer
  (\<open>slice(-0)\<close> is \<open>slice(0)\<close>, the whole array).\<close>

definition slice_last :: "nat \<Rightarrow> 'a list \<Rightarrow> 'a list" where
  "slice_last n xs = (if n = 0 then xs else drop (length xs - n) xs)"

record 'a cache =
  articleCache :: "'a list"
  titleCache :: "(string \<times> int) list"

text \<open>
  \<open>addToCache(articleId, title)\<close>, with \<open>now\<close> the value of \<open>Date.now()\<close>. After the
  overflow test the set is cleared and the kept items are added again one by one.
\<close>

definition addToCache :: "int \<Rightarrow> 'a \<Rightarrow> string \<Rightarrow> 'a cache \<Rightarrow> 'a cache" where
  "addToCache now articleId title c =
     (let ac = set_add articleId (articleCache c);
          tc = map_set (trim (toLowerCase title)) now (titleCache c)
      in if length ac > MAX_CACHE_SIZE
         then (let itemsToKeep = slice_last (MAX_CACHE_SIZE div 2) ac
               in \<lparr>articleCache = foldl (\<lambda>s item. set_add item s) [] itemsToKeep,
                   titleCache = tc\<rparr>)
         else \<lparr>articleCache = ac, titleCache = tc\<rparr>)"

text \<open>
  \<open>isSimilarTitleExists(title)\<close>. The loop walks the map in insertion order; an entry
  older than one hour is deleted and skipped, the first remaining entry that contains
  the title or is contained in it ends the loop with \<open>true\<close>. The loop is synchronous:
  the readings of \<open>Date.now()\<close> within one call are taken to be the one instant \<open>now\<close>.
  The result is the returned boolean and the map as the call leaves it.
\<close>

fun scanTitles :: "int \<Rightarrow> string \<Rightarrow> (string \<times> int) list \<Rightarrow> bool \<times> (string \<times> int) list" where
  "scanTitles now normalizedTitle [] = (False, [])"
| "scanTitles now normalizedTitle ((cachedTitle, timestamp) # rest) =
     (if now - timestamp > 3600000 then scanTitles now normalizedTitle rest
      else if str_includes cachedTitle normalizedTitle \<or> str_includes normalizedTitle cachedTitle
      then (True, (cachedTitle, timestamp) # rest)
      else (let (found, rest') = scanTitles now normalizedTitle rest
            in (found, (cachedTitle, timestamp) # rest')))"

definition isSimilarTitleExists :: "int \<Rightarrow> string \<Rightarrow> (string \<times> int) list \<Rightarrow> bool \<times> (string \<times> int) list" where
  "isSimilarTitleExists now title tc = scanTitles now (trim (toLowerCase title)) tc"

text \<open>The vocabulary of the claims about the title cache.\<close>

definition stale :: "int \<Rightarrow> string \<times> int \<Rightarrow> bool" where
  "stale now e = (now - snd e > 3600000)"

definition similar :: "string \<Rightarrow> string \<times> int \<Rightarrow> bool" where
  "similar n e = (str_includes (fst e) n \<or> str_includes n (fst e))"

section \<open>Articles\<close>

text \<open>
  An item of a parsed feed. The title is a string; every other field the bot reads may
  be absent (\<open>undefined\<close>), which is \<open>None\<close>.
\<close>

record article =
  guid :: "string option"
  link :: "string option"
  title :: string
  contentSnippet :: "string option"
  creator :: "string option"
  author :: "string option"
  isoDate :: "string option"

text \<open>Truthiness of a value that is a string or \<open>undefined\<close>: the empty string is falsy.\<close>

definition truthy :: "string option \<Rightarrow> bool" where
  "truthy v = (case v of None \<Rightarrow> False | Some s \<Rightarrow> s \<noteq> [])"

text \<open>\<open>a || b\<close> on such values.\<close>

definition js_or :: "string option \<Rightarrow> string option \<Rightarrow> string option" where
  "js_or a b = (if truthy a then a else b)"

text \<open>A value put into a template string: \<open>undefined\<close> prints as the word.\<close>

definition js_string :: "string option \<Rightarrow> string" where
  "js_string v = (case v of None \<Rightarrow> ''undefined'' | Some s \<Rightarrow> s)"

section \<open>The classifier\<close>

definition MARKET_KEYWORDS :: "string list" where
  "MARKET_KEYWORDS =
    [''fed'', ''federal reserve'', ''interest rate'', ''rates'', ''inflation'', ''cpi'', ''gdp'', ''unemployment'',
     ''nifty'', ''sensex'', ''bse'', ''nse'', ''rbi'', ''sebi'', ''rupee'', ''rbi governor'',
     ''earnings'', ''revenue'', ''profit'', ''loss'', ''forecast'', ''guidance'', ''outlook'',
     ''crash'', ''correction'', ''bear market'', ''bull market'', ''recession'', ''depression'',
     ''rally'', ''surge'', ''plunge'', ''tumble'', ''soar'', ''slump'',
     ''stock market'', ''wall street'', ''dow jones'', ''nasdaq'', ''s&p'', ''russell'',
     ''treasury'', ''bond'', ''yield'', ''debt'', ''default'',
     ''ipo'', ''merger'', ''acquisition'', ''bankrupt'', ''chapter 11'',
     ''economic'', ''economy'', ''fiscal'', ''monetary policy'',
     ''stimulus'', ''bailout'', ''regulation'', ''deregulation'',
     ''trade war'', ''tariff'', ''sanction'', ''embargo'']"

definition POSITIVE_KEYWORDS :: "string list" where
  "POSITIVE_KEYWORDS =
    [''rise'', ''rises'', ''rising'', ''rose'', ''gain'', ''gains'', ''gained'', ''up'', ''higher'',
     ''surge'', ''surges'', ''surged'', ''rally'', ''rallies'', ''rallied'', ''recover'', ''recovers'', ''recovered'',
     ''beat'', ''beats'', ''beating'', ''exceed'', ''exceeds'', ''exceeded'', ''outperform'', ''outperforms'',
     ''strong'', ''stronger'', ''strongest'', ''positive'', ''optimistic'', ''optimism'', ''confidence'',
     ''bullish'', ''boom'', ''soar'', ''soars'', ''soared'', ''jump'', ''jumps'', ''jumped'',
     ''growth'', ''expand'', ''expands'', ''expanded'', ''breakthrough'', ''success'']"

definition NEGATIVE_KEYWORDS :: "string list" where
  "NEGATIVE_KEYWORDS =
    [''fall'', ''falls'', ''falling'', ''fell'', ''drop'', ''drops'', ''dropped'', ''down'', ''lower'',
     ''plunge'', ''plunges'', ''plunged'', ''tumble'', ''tumbles'', ''tumbled'', ''sink'', ''sinks'', ''sank'',
     ''miss'', ''misses'', ''missed'', ''fail'', ''fails'', ''failed'', ''underperform'', ''underperforms'',
     ''weak'', ''weaker'', ''weakest'', ''negative'', ''pessimistic'', ''pessimism'', ''concern'', ''concerned'',
     ''bearish'', ''bust'', ''crash'', ''crashes'', ''crashed'', ''collapse'', ''collapses'', ''collapsed'',
     ''decline'', ''declines'', ''declined'', ''shrink'', ''shrinks'', ''shrank'', ''crisis'', ''warning'']"

text \<open>\<open>article.contentSnippet || ''\<close>\<close>

definition snippet :: "article \<Rightarrow> string" where
  "snippet a = (case contentSnippet a of None \<Rightarrow> [] | Some s \<Rightarrow> s)"

text \<open>\<open>(article.title + ' ' + (article.contentSnippet || '')).toLowerCase()\<close>\<close>

definition content :: "article \<Rightarrow> string" where
  "content a = toLowerCase (title a @ '' '' @ snippet a)"

definition isMarketRelevant :: "article \<Rightarrow> bool" where
  "isMarketRelevant a =
     list_ex (\<lambda>keyword. str_includes (content a) (toLowerCase keyword)) MARKET_KEYWORDS"

text \<open>
  The regular expression \<open>new RegExp('\\b' + keyword + '\\b', 'g')\<close>. Every keyword of
  the two sentiment lists is made of letters, so its pattern is the literal keyword
  between two \<open>\b\<close> assertions. A word character is one of \<open>[A-Za-z0-9_]\<close>; \<open>\b\<close> holds
  at a position when exactly one of the characters before and at the position is a word
  character, outside the string counting as none.
\<close>

definition isWordChar :: "char \<Rightarrow> bool" where
  "isWordChar c =
     (let n = (of_char c :: nat)
      in (48 \<le> n \<and> n \<le> 57) \<or> (65 \<le> n \<and> n \<le> 90) \<or> n = 95 \<or> (97 \<le> n \<and> n \<le> 122))"

definition wordCharAt :: "string \<Rightarrow> nat \<Rightarrow> bool" where
  "wordCharAt s i = (i < length s \<and> isWordChar (s ! i))"

definition isWordBoundary :: "string \<Rightarrow> nat \<Rightarrow> bool" where
  "isWordBoundary s i = ((0 < i \<and> wordCharAt s (i - 1)) \<noteq> wordCharAt s i)"

text \<open>The pattern matches at index \<open>i\<close> of \<open>s\<close>.\<close>

definition matchAt :: "string \<Rightarrow> string \<Rightarrow> nat \<Rightarrow> bool" where
  "matchAt kw s i =
     (isWordBoundary s i \<and> i + length kw \<le> length s \<and> take (length kw) (drop i s) = kw
      \<and> isWordBoundary s (i + length kw))"

text \<open>
  \<open>content.match(regex)\<close> with the flag \<open>g\<close>, counted: the search runs from \<open>lastIndex\<close>
  = \<open>i\<close> to the first index with a match; the next search starts at the end of the match
  (one further when the match is empty); no match up to the end of the string ends it.
\<close>

function matchCount :: "string \<Rightarrow> string \<Rightarrow> nat \<Rightarrow> nat" where
  "matchCount kw s i =
     (if length s < i then 0
      else if matchAt kw s i then Suc (matchCount kw s (i + max 1 (length kw)))
      else matchCount kw s (i + 1))"
  by pat_completeness auto
termination
  by (relation "measure (\<lambda>(kw, s, i). Suc (length s) - i)") auto

text \<open>The \<open>forEach\<close> loops of \<open>analyzeSentiment\<close>: the matches of all keywords, added up.\<close>

definition keywordScore :: "string list \<Rightarrow> string \<Rightarrow> nat" where
  "keywordScore keywords c =
     foldl (\<lambda>total keyword. total + matchCount (toLowerCase keyword) c 0) 0 keywords"

record sentiment_result =
  score :: int
  sentiment :: string
  emoji :: string

definition analyzeSentiment :: "article \<Rightarrow> sentiment_result" where
  "analyzeSentiment a =
     (let c = content a;
          positiveScore = keywordScore POSITIVE_KEYWORDS c;
          negativeScore = keywordScore NEGATIVE_KEYWORDS c
      in if positiveScore > negativeScore
         then \<lparr>score = int positiveScore - int negativeScore, sentiment = ''positive'',
               emoji = [CHR 0xC3, CHR 0xB0, CHR 0xC5, CHR 0xB8, CHR 0xC5, CHR 0xB8, CHR 0xC2, CHR 0xA2]\<rparr>
         else if negativeScore > positiveScore
         then \<lparr>score = int positiveScore - int negativeScore, sentiment = ''negative'',
               emoji = [CHR 0xC3, CHR 0xB0, CHR 0xC5, CHR 0xB8, CHR 0xE2, CHR 0x80, CHR 0x9D, CHR 0xC2, CHR 0xB4]\<rparr>
         else \<lparr>score = int positiveScore - int negativeScore, sentiment = ''neutral'',
               emoji = [CHR 0xC3, CHR 0xA2, CHR 0xC5, CHR 0xA1, CHR 0xC2, CHR 0xAA]\<rparr>)"

text \<open>
  The vocabulary of the claims about the classifier, following their words. A
  word-bounded occurrence of a keyword at index \<open>i\<close> is an occurrence that no word
  character precedes and none follows; \<open>wordOccurrences\<close> counts the indices with one.
  \<open>sentimentScoreOf\<close> is the count for the positive list minus the count for the negative
  list in a given text, \<open>relevantIn\<close> says that some market keyword is a substring of a
  given text.
\<close>

definition boundedOccurrence :: "string \<Rightarrow> string \<Rightarrow> nat \<Rightarrow> bool" where
  "boundedOccurrence kw s i =
     (i + length kw \<le> length s \<and> take (length kw) (drop i s) = kw
      \<and> (i = 0 \<or> \<not> isWordChar (s ! (i - 1)))
      \<and> (i + length kw = length s \<or> \<not> isWordChar (s ! (i + length kw))))"

definition wordOccurrences :: "string \<Rightarrow> string \<Rightarrow> nat" where
  "wordOccurrences kw s = length (filter (boundedOccurrence kw s) [0 ..< Suc (length s)])"

definition sentimentScoreOf :: "string \<Rightarrow> int" where
  "sentimentScoreOf text =
     int (sum_list (map (\<lambda>kw. wordOccurrences (toLowerCase kw) text) POSITIVE_KEYWORDS))
     - int (sum_list (map (\<lambda>kw. wordOccurrences (toLowerCase kw) text) NEGATIVE_KEYWORDS))"

definition relevantIn :: "string \<Rightarrow> bool" where
  "relevantIn text = list_ex (\<lambda>kw. str_includes text (toLowerCase kw)) MARKET_KEYWORDS"

text \<open>
  The words of a text: its maximal runs of word characters, from left to right.
  \<open>wordHere\<close> says that a text starts with the keyword and no word character follows it;
  \<open>wordCount\<close> counts the places of a text where the keyword stands as a whole word,
  walking through the text and remembering whether the character before is a word
  character.
\<close>

function tokens :: "string \<Rightarrow> string list" where
  "tokens [] = []"
| "tokens (c # cs) =
     (if isWordChar c then takeWhile isWordChar (c # cs) # tokens (dropWhile isWordChar cs)
      else tokens cs)"
  by pat_completeness auto
termination
  by (relation "measure length") (auto simp: le_imp_less_Suc length_dropWhile_le)

definition wordHere :: "string \<Rightarrow> string \<Rightarrow> bool" where
  "wordHere kw rest = (\<exists>post. rest = kw @ post \<and> (post = [] \<or> \<not> isWordChar (hd post)))"

fun wordCount :: "string \<Rightarrow> bool \<Rightarrow> string \<Rightarrow> nat" where
  "wordCount kw inWord [] = 0"
| "wordCount kw inWord (c # cs) =
     (if \<not> inWord \<and> wordHere kw (c # cs) then 1 else 0) + wordCount kw (isWordChar c) cs"


section \<open>The collaborators\<close>

text \<open>
  What one poll tick gets from outside. \<open>parseURL\<close> is the result of fetching and parsing
  a feed: its items, or the message of the error it fails with. \<open>sendMessage k m\<close> is the
  outcome of the \<open>k\<close>-th call of \<open>bot.sendMessage\<close> of the tick, made with the message
  \<open>m\<close>. \<open>clock k\<close> is the \<open>k\<close>-th reading of \<open>Date.now()\<close>. \<open>urlHostname\<close> is the host
  name the URL parser finds in a string, \<open>None\<close> when it rejects the string.
  \<open>localeString\<close> is the text \<open>toLocaleString()\<close> gives for the date of an item, for the
  current time when the item has none.
\<close>

datatype exn = Exn string

datatype send_result = Resolved | Rejected string

record env =
  parseURL :: "string \<Rightarrow> string + article list"
  sendMessage :: "nat \<Rightarrow> string \<Rightarrow> send_result"
  clock :: "nat \<Rightarrow> int"
  urlHostname :: "string \<Rightarrow> string option"
  localeString :: "string option \<Rightarrow> string"

type_synonym ident = "string option"

text \<open>
  What a tick does, in order: the calls of \<open>bot.sendMessage\<close>, the waits, the calls of
  \<open>addToCache\<close> and the lines written to the console.
\<close>

datatype event =
    Checking
  | Fetching string
  | RelevantFound string
  | SendMessage string
  | MessageSent
  | RateLimited nat
  | Sleep nat
  | SendError string
  | MaxRetries
  | AddToCache ident string
  | CacheReached nat
  | CacheCleared nat
  | FeedError string string

record world =
  store :: "ident cache"
  sends :: nat
  reads :: nat
  trace :: "event list"

definition emit :: "event list \<Rightarrow> world \<Rightarrow> world" where
  "emit evs w = w\<lparr>trace := trace w @ evs\<rparr>"

section \<open>The message\<close>

definition toUpperChar :: "char \<Rightarrow> char" where
  "toUpperChar c =
     (let n = (of_char c :: nat) in if 97 \<le> n \<and> n \<le> 122 then char_of (n - 32) else c)"

text \<open>\<open>s.charAt(0).toUpperCase() + s.slice(1)\<close>\<close>

definition capitalize :: "string \<Rightarrow> string" where
  "capitalize s = (case s of [] \<Rightarrow> [] | c # cs \<Rightarrow> toUpperChar c # cs)"

text \<open>
  \<open>new URL(s).hostname\<close>, with no base: a string without a colon has no scheme and the
  constructor throws a \<open>TypeError\<close>; for any other string the outcome is the parser's.
\<close>

definition newURL_hostname :: "env \<Rightarrow> string \<Rightarrow> exn + string" where
  "newURL_hostname e s =
     (if CHR '':'' \<in> set s
      then (case urlHostname e s of None \<Rightarrow> Inl (Exn ''Invalid URL'') | Some h \<Rightarrow> Inr h)
      else Inl (Exn ''Invalid URL''))"

definition formatMessage :: "env \<Rightarrow> article \<Rightarrow> sentiment_result \<Rightarrow> exn + string" where
  "formatMessage e article sent =
     (let title' = trim (title article);
          link' = js_string (link article)
      in case (if truthy (creator article) then Inr (js_string (creator article))
               else if truthy (author article) then Inr (js_string (author article))
               else newURL_hostname e link') of
           Inl x \<Rightarrow> Inl x
         | Inr source \<Rightarrow>
             (let date = localeString e (if truthy (isoDate article) then isoDate article else None)
              in Inr ([CHR 0x0A] @ emoji sent @ '' <b>'' @ title' @ ''</b>'' @ [CHR 0x0A, CHR 0x0A]
                      @ ''Source: '' @ source @ [CHR 0x0A]
                      @ ''Published: '' @ date @ [CHR 0x0A]
                      @ ''Sentiment: '' @ capitalize (sentiment sent) @ [CHR 0x0A, CHR 0x0A]
                      @ ''<a href='' @ [CHR 0x22] @ link' @ [CHR 0x22] @ ''>Read more</a>'' @ [CHR 0x0A])))"

section \<open>Delivery\<close>

definition isDigit :: "char \<Rightarrow> bool" where
  "isDigit c = (let n = (of_char c :: nat) in 48 \<le> n \<and> n \<le> 57)"

text \<open>\<open>parseInt\<close> of a string of decimal digits.\<close>

definition parseInt :: "string \<Rightarrow> nat" where
  "parseInt ds = foldl (\<lambda>n d. 10 * n + (of_char d - 48)) 0 ds"

text \<open>
  \<open>error.message.match(/retry after (\d+)/i)\<close>, then \<open>parseInt(match[1])\<close>: the leftmost
  place where the message reads \<open>retry after\<close>, in any case, a space and at least one
  digit, with all the digits that follow.
\<close>

fun retryAfter :: "string \<Rightarrow> nat option" where
  "retryAfter [] = None"
| "retryAfter (c # cs) =
     (if toLowerCase (take 12 (c # cs)) = ''retry after '' \<and> takeWhile isDigit (drop 12 (c # cs)) \<noteq> []
      then Some (parseInt (takeWhile isDigit (drop 12 (c # cs))))
      else retryAfter cs)"

definition waitTime :: "string \<Rightarrow> nat" where
  "waitTime m = (case retryAfter m of Some n \<Rightarrow> n * 1000 | None \<Rightarrow> 30000)"

definition maxRetries :: nat where
  "maxRetries = 3"

text \<open>
  The loop of \<open>sendToTelegram\<close>. The result is the exception the function ends with, if
  any, and the world it leaves.
\<close>

function sendLoop :: "env \<Rightarrow> string \<Rightarrow> nat \<Rightarrow> world \<Rightarrow> exn option \<times> world" where
  "sendLoop e message retries w =
     (if retries < maxRetries
      then (let w1 = emit [SendMessage message] (w\<lparr>sends := Suc (sends w)\<rparr>)
            in case sendMessage e (sends w) message of
                 Resolved \<Rightarrow> (None, emit [MessageSent] w1)
               | Rejected m \<Rightarrow>
                   if str_includes m ''429''
                   then sendLoop e message (retries + 1)
                          (emit [RateLimited (waitTime m), Sleep (waitTime m)] w1)
                   else (None, emit [SendError m] w1))
      else (None, emit [MaxRetries] w))"
  by pat_completeness auto
termination
  by (relation "measure (\<lambda>(e, message, retries, w). maxRetries - retries)") auto

definition sendToTelegram :: "env \<Rightarrow> string \<Rightarrow> world \<Rightarrow> exn option \<times> world" where
  "sendToTelegram e message w = sendLoop e message 0 w"

section \<open>The poll tick\<close>

definition RSS_FEEDS :: "string list" where
  "RSS_FEEDS =
    [''https://finance.yahoo.com/news/rssindex'',
     ''https://www.marketwatch.com/rss/topstories'',
     ''https://www.cnbc.com/id/100003114/device/rss/rss.html'',
     ''https://economictimes.indiatimes.com/markets/rssfeeds/1977021501.cms'',
     ''https://www.moneycontrol.com/rss/market.xml'',
     ''https://www.business-standard.com/rss/markets-106.rss'']"

text \<open>\<open>article.guid || article.link\<close>\<close>

definition articleId :: "article \<Rightarrow> ident" where
  "articleId a = js_or (guid a) (link a)"

text \<open>The call \<open>addToCache(articleId, article.title)\<close> with its two console lines.\<close>

definition recordArticle :: "env \<Rightarrow> article \<Rightarrow> world \<Rightarrow> world" where
  "recordArticle e a w =
     (let c = addToCache (clock e (reads w)) (articleId a) (title a) (store w);
          size = length (set_add (articleId a) (articleCache (store w)))
      in emit (AddToCache (articleId a) (title a)
               # (if size > MAX_CACHE_SIZE
                  then [CacheReached size, CacheCleared (length (articleCache c))] else []))
           (w\<lparr>store := c, reads := Suc (reads w)\<rparr>))"

text \<open>
  The body of the loop over the items of a feed. \<open>isSimilarTitleExists\<close> is only called
  for an item whose identifier is not in the cache.
\<close>

definition processArticle :: "env \<Rightarrow> article \<Rightarrow> world \<Rightarrow> exn option \<times> world" where
  "processArticle e a w =
     (if articleId a \<in> set (articleCache (store w)) then (None, w)
      else
        (let r = isSimilarTitleExists (clock e (reads w)) (title a) (titleCache (store w));
             w1 = w\<lparr>store := (store w)\<lparr>titleCache := snd r\<rparr>, reads := Suc (reads w)\<rparr>
         in if fst r then (None, w1)
            else if isMarketRelevant a
            then (let w2 = emit [RelevantFound (title a)] w1;
                      sent = analyzeSentiment a
                  in case formatMessage e a sent of
                       Inl x \<Rightarrow> (Some x, w2)
                     | Inr message \<Rightarrow>
                         (case sendToTelegram e message w2 of
                            (Some x, w3) \<Rightarrow> (Some x, w3)
                          | (None, w3) \<Rightarrow> (None, recordArticle e a w3)))
            else (None, w1)))"

fun processItems :: "env \<Rightarrow> article list \<Rightarrow> world \<Rightarrow> exn option \<times> world" where
  "processItems e [] w = (None, w)"
| "processItems e (a # items) w =
     (case processArticle e a w of
        (Some x, w') \<Rightarrow> (Some x, w')
      | (None, w') \<Rightarrow> processItems e items w')"

text \<open>One round of the loop over the feeds: the \<open>try\<close> block and its \<open>catch\<close>.\<close>

definition processFeed :: "env \<Rightarrow> string \<Rightarrow> world \<Rightarrow> world" where
  "processFeed e feedUrl w =
     (let w1 = emit [Fetching feedUrl] w
      in case parseURL e feedUrl of
           Inl m \<Rightarrow> emit [FeedError feedUrl m] w1
         | Inr items \<Rightarrow>
             (case processItems e items w1 of
                (Some (Exn m), w2) \<Rightarrow> emit [FeedError feedUrl m] w2
              | (None, w2) \<Rightarrow> w2))"

definition checkNewsFeeds :: "env \<Rightarrow> world \<Rightarrow> world" where
  "checkNewsFeeds e w = foldl (\<lambda>w feedUrl. processFeed e feedUrl w) (emit [Checking] w) RSS_FEEDS"

text \<open>
  The vocabulary of the claims about a tick. \<open>message\<close> is the text sent for an article
  whose message can be built. The events of delivery are those of \<open>sendToTelegram\<close>, the
  cache lines are the two console lines of \<open>addToCache\<close>. \<open>rateLimited\<close> says that a call
  of \<open>bot.sendMessage\<close> fails with an error of the rate-limit class, and \<open>attemptEvents\<close>
  lists what one attempt to send does: the call, and then the line for success, or the
  line for the rate limit and the wait, or the line for any other error.
\<close>

definition message :: "env \<Rightarrow> article \<Rightarrow> string" where
  "message e a = (case formatMessage e a (analyzeSentiment a) of Inl x \<Rightarrow> [] | Inr m \<Rightarrow> m)"

fun isDelivery :: "event \<Rightarrow> bool" where
  "isDelivery (SendMessage m) = True"
| "isDelivery MessageSent = True"
| "isDelivery (RateLimited n) = True"
| "isDelivery (Sleep n) = True"
| "isDelivery (SendError m) = True"
| "isDelivery MaxRetries = True"
| "isDelivery ev = False"

fun isCacheLine :: "event \<Rightarrow> bool" where
  "isCacheLine (CacheReached n) = True"
| "isCacheLine (CacheCleared n) = True"
| "isCacheLine ev = False"

fun isAddToCache :: "event \<Rightarrow> bool" where
  "isAddToCache (AddToCache i t) = True"
| "isAddToCache ev = False"

fun rateLimited :: "send_result \<Rightarrow> bool" where
  "rateLimited Resolved = False"
| "rateLimited (Rejected m) = str_includes m ''429''"

fun attemptEvents :: "string \<Rightarrow> send_result \<Rightarrow> event list" where
  "attemptEvents msg Resolved = [SendMessage msg, MessageSent]"
| "attemptEvents msg (Rejected m) =
     (if str_includes m ''429'' then [SendMessage msg, RateLimited (waitTime m), Sleep (waitTime m)]
      else [SendMessage msg, SendError m])"

text \<open>The world after the call \<open>isSimilarTitleExists(article.title)\<close> for an item.\<close>

definition titleChecked :: "env \<Rightarrow> article \<Rightarrow> world \<Rightarrow> world" where
  "titleChecked e a w =
     w\<lparr>store := (store w)\<lparr>titleCache :=
            snd (isSimilarTitleExists (clock e (reads w)) (title a) (titleCache (store w)))\<rparr>,
       reads := Suc (reads w)\<rparr>"

section \<open>Sample ticks\<close>

text \<open>
  Concrete inputs for the examples: three items with a creator, one item without
  creator, author and link, a world with empty caches, and four ticks. In all of them
  the clock starts at 1000 and advances by one with each reading, the date text is
  \<open>now\<close>, and the URL parser knows \<open>https\<close> links only. In \<open>busyTick\<close> every delivery
  succeeds, in \<open>rateLimitedTick\<close> every delivery is rate limited, in \<open>refusedTick\<close>
  every delivery fails with another error, and in \<open>brokenFeedTick\<close> the first feed starts
  with the item that has no link.
\<close>

definition sampleHostname :: "string \<Rightarrow> string option" where
  "sampleHostname s =
     (if take 8 s = ''https://'' \<and> drop 8 s \<noteq> []
      then Some (takeWhile (\<lambda>c. c \<noteq> CHR ''/'') (drop 8 s)) else None)"

definition fedUp :: article where
  "fedUp = \<lparr>guid = Some ''g1'', link = Some ''https://x.org/1'', title = ''Fed up'',
            contentSnippet = None, creator = Some ''Ann'', author = None, isoDate = None\<rparr>"

definition gdpDown :: article where
  "gdpDown = \<lparr>guid = Some ''g2'', link = Some ''https://x.org/2'', title = ''GDP down'',
            contentSnippet = None, creator = Some ''Bob'', author = None, isoDate = None\<rparr>"

definition ipoBoom :: article where
  "ipoBoom = \<lparr>guid = Some ''g3'', link = Some ''https://y.org/3'', title = ''IPO boom'',
            contentSnippet = None, creator = Some ''Cy'', author = None, isoDate = None\<rparr>"

definition busyTick :: env where
  "busyTick =
     \<lparr>parseURL = (\<lambda>u. if u = ''https://finance.yahoo.com/news/rssindex'' then Inr [fedUp, gdpDown]
                      else if u = ''https://www.marketwatch.com/rss/topstories'' then Inr [ipoBoom]
                      else Inr []),
      sendMessage = (\<lambda>k m. Resolved),
      clock = (\<lambda>k. 1000 + int k),
      urlHostname = sampleHostname,
      localeString = (\<lambda>d. ''now'')\<rparr>"

definition emptyWorld :: world where
  "emptyWorld = \<lparr>store = \<lparr>articleCache = [], titleCache = []\<rparr>, sends = 0, reads = 0, trace = []\<rparr>"

definition noLink :: article where
  "noLink = \<lparr>guid = Some ''g9'', link = None, title = ''Fed hikes rates'',
             contentSnippet = None, creator = None, author = None, isoDate = None\<rparr>"

definition rateLimitedTick :: env where
  "rateLimitedTick =
     busyTick\<lparr>sendMessage := (\<lambda>k m. Rejected ''ETELEGRAM: 429 Too Many Requests: retry after 5'')\<rparr>"

definition refusedTick :: env where
  "refusedTick =
     busyTick\<lparr>sendMessage := (\<lambda>k m. Rejected ''ETELEGRAM: 400 Bad Request: chat not found'')\<rparr>"

definition brokenFeedTick :: env where
  "brokenFeedTick =
     busyTick\<lparr>parseURL := (\<lambda>u. if u = ''https://finance.yahoo.com/news/rssindex''
                               then Inr [noLink, gdpDown] else Inr [])\<rparr>"

section \<open>Substrings\<close>

lemma take_length_eq_iff: "take (length sub) s = sub \<longleftrightarrow> (\<exists>q. s = sub @ q)"
  by (metis append_eq_conv_conj append_take_drop_id)

lemma str_includes_iff: "str_includes s sub \<longleftrightarrow> (\<exists>p q. s = p @ sub @ q)"
proof (induction s)
  case Nil
  show ?case by auto
next
  case (Cons c cs)
  have "(\<exists>p q. c # cs = p @ sub @ q) \<longleftrightarrow>
        (\<exists>q. c # cs = sub @ q) \<or> (\<exists>p q. cs = p @ sub @ q)"
  proof
    assume "\<exists>p q. c # cs = p @ sub @ q"
    then obtain p q where pq: "c # cs = p @ sub @ q" by blast
    show "(\<exists>q. c # cs = sub @ q) \<or> (\<exists>p q. cs = p @ sub @ q)"
    proof (cases p)
      case Nil
      with pq show ?thesis by auto
    next
      case (Cons a p')
      with pq have "cs = p' @ sub @ q" by simp
      then show ?thesis by blast
    qed
  next
    assume "(\<exists>q. c # cs = sub @ q) \<or> (\<exists>p q. cs = p @ sub @ q)"
    then show "\<exists>p q. c # cs = p @ sub @ q"
    proof
      assume "\<exists>q. c # cs = sub @ q"
      then obtain q where "c # cs = [] @ sub @ q" by auto
      then show ?thesis by blast
    next
      assume "\<exists>p q. cs = p @ sub @ q"
      then obtain p q where "c # cs = (c # p) @ sub @ q" by auto
      then show ?thesis by blast
    qed
  qed
  with Cons show ?case
    by (simp only: str_includes.simps take_length_eq_iff)
qed

section \<open>The bounded set of seen identifiers\<close>

lemma foldl_set_add_distinct:
  "distinct (acc @ xs) \<Longrightarrow> foldl (\<lambda>s item. set_add item s) acc xs = acc @ xs"
proof (induction xs arbitrary: acc)
  case Nil
  show ?case by simp
next
  case (Cons x xs)
  from Cons.prems have "x \<notin> set acc" by simp
  then have "set_add x acc = acc @ [x]" by (simp add: set_add_def)
  moreover from Cons.prems have "distinct ((acc @ [x]) @ xs)" by simp
  ultimately show ?case using Cons.IH [of "acc @ [x]"] by simp
qed

lemma distinct_set_add: "distinct xs \<Longrightarrow> distinct (set_add x xs)"
  by (simp add: set_add_def)

text \<open>
  Claim C2. After \<open>addToCache\<close> the set of seen identifiers holds at most
  \<open>MAX_CACHE_SIZE\<close> = 1000 elements. When the insertion leaves more than 1000, the set
  becomes exactly the last 500 = 1000 div 2 elements of the insertion order (the most
  recently inserted ones, in their order), and the older ones are gone; otherwise the
  set is the old one with the identifier added.
\<close>

theorem addToCache_bounded:
  assumes "distinct (articleCache c)"
  shows "length (articleCache (addToCache now aid t c)) \<le> MAX_CACHE_SIZE
    \<and> MAX_CACHE_SIZE = 1000 \<and> MAX_CACHE_SIZE div 2 = 500
    \<and> (length (set_add aid (articleCache c)) > MAX_CACHE_SIZE \<longrightarrow>
         articleCache (addToCache now aid t c) =
           drop (length (set_add aid (articleCache c)) - 500) (set_add aid (articleCache c))
         \<and> length (articleCache (addToCache now aid t c)) = 500)
    \<and> (length (set_add aid (articleCache c)) \<le> MAX_CACHE_SIZE \<longrightarrow>
         articleCache (addToCache now aid t c) = set_add aid (articleCache c))
    \<and> distinct (articleCache (addToCache now aid t c))"
proof -
  let ?ac = "set_add aid (articleCache c)"
  have d: "distinct ?ac" using assms by (rule distinct_set_add)
  show ?thesis
  proof (cases "length ?ac > 1000")
    case True
    have keep: "slice_last (MAX_CACHE_SIZE div 2) ?ac = drop (length ?ac - 500) ?ac"
      by (simp add: slice_last_def MAX_CACHE_SIZE_def)
    have "distinct ([] @ drop (length ?ac - 500) ?ac)" using d by simp
    then have "foldl (\<lambda>s item. set_add item s) [] (drop (length ?ac - 500) ?ac)
               = drop (length ?ac - 500) ?ac"
      using foldl_set_add_distinct [of "[]" "drop (length ?ac - 500) ?ac"] by simp
    with True keep have eq: "articleCache (addToCache now aid t c)
                             = drop (length ?ac - 500) ?ac"
      by (simp add: addToCache_def Let_def MAX_CACHE_SIZE_def)
    from True have "length (drop (length ?ac - 500) ?ac) = 500" by simp
    with eq True d show ?thesis by (simp add: MAX_CACHE_SIZE_def)
  next
    case False
    then have "articleCache (addToCache now aid t c) = ?ac"
      by (simp add: addToCache_def Let_def MAX_CACHE_SIZE_def)
    with False d show ?thesis by (simp add: MAX_CACHE_SIZE_def)
  qed
qed

theorem addToCache_bounded_witness:
  "distinct (articleCache \<lparr>articleCache = [0 ..< 1000 :: nat], titleCache = []\<rparr>)
   \<and> articleCache (addToCache 0 1000 ''Fed raises rates''
         \<lparr>articleCache = [0 ..< 1000 :: nat], titleCache = []\<rparr>) = [501 ..< 1001]"
proof -
  have "[0 ..< Suc 1000] = [0 ..< 1000] @ [1000]"
    by (rule upt_Suc_append) simp
  then have ac: "set_add 1000 [0 ..< 1000 :: nat] = [0 ..< 1001]"
    by (simp add: set_add_def)
  have "drop 501 [0 ..< 1001 :: nat] = [501 ..< 1001]"
    by (simp add: drop_upt)
  with ac show ?thesis
    using addToCache_bounded [of "\<lparr>articleCache = [0 ..< 1000 :: nat], titleCache = []\<rparr>"
        0 1000 "''Fed raises rates''"]
    by (simp add: MAX_CACHE_SIZE_def)
qed

section \<open>The cache of recent titles\<close>

lemma scanTitles_split:
  "scanTitles now n (a # tc) =
     (if stale now a then scanTitles now n tc
      else if similar n a then (True, a # tc)
      else (fst (scanTitles now n tc), a # snd (scanTitles now n tc)))"
  by (cases a) (simp add: stale_def similar_def split: prod.splits)


lemma scanTitles_not_found:
  "\<not> fst (scanTitles now n tc) \<Longrightarrow> snd (scanTitles now n tc) = filter (\<lambda>e. \<not> stale now e) tc"
proof (induction tc)
  case Nil
  show ?case by simp
next
  case (Cons a tc)
  then show ?case unfolding scanTitles_split by (simp split: if_splits)
qed

lemma scanTitles_first_match:
  "fst (scanTitles now n tc) \<Longrightarrow>
     \<exists>pre m post. tc = pre @ m # post \<and> \<not> stale now m \<and> similar n m
       \<and> (\<forall>e \<in> set pre. stale now e \<or> \<not> similar n e)
       \<and> snd (scanTitles now n tc) = filter (\<lambda>e. \<not> stale now e) pre @ m # post"
proof (induction tc)
  case Nil
  then show ?case by simp
next
  case (Cons a tc)
  show ?case
  proof (cases "stale now a")
    case True
    then have same: "scanTitles now n (a # tc) = scanTitles now n tc"
      by (simp add: scanTitles_split)
    with Cons.prems have "fst (scanTitles now n tc)" by simp
    from Cons.IH [OF this] obtain pre m post where
      h: "tc = pre @ m # post" "\<not> stale now m" "similar n m"
         "\<forall>e \<in> set pre. stale now e \<or> \<not> similar n e"
         "snd (scanTitles now n tc) = filter (\<lambda>e. \<not> stale now e) pre @ m # post"
      by blast
    from h True same have
      "a # tc = (a # pre) @ m # post \<and> \<not> stale now m \<and> similar n m
       \<and> (\<forall>e \<in> set (a # pre). stale now e \<or> \<not> similar n e)
       \<and> snd (scanTitles now n (a # tc)) = filter (\<lambda>e. \<not> stale now e) (a # pre) @ m # post"
      by simp
    then show ?thesis by blast
  next
    case fresh: False
    show ?thesis
    proof (cases "similar n a")
      case True
      with fresh have "scanTitles now n (a # tc) = (True, a # tc)"
        by (simp add: scanTitles_split)
      with fresh True have
        "a # tc = [] @ a # tc \<and> \<not> stale now a \<and> similar n a
         \<and> (\<forall>e \<in> set []. stale now e \<or> \<not> similar n e)
         \<and> snd (scanTitles now n (a # tc)) = filter (\<lambda>e. \<not> stale now e) [] @ a # tc"
        by simp
      then show ?thesis by blast
    next
      case False
      with fresh have step: "scanTitles now n (a # tc)
          = (fst (scanTitles now n tc), a # snd (scanTitles now n tc))"
        by (simp add: scanTitles_split)
      with Cons.prems have "fst (scanTitles now n tc)" by simp
      from Cons.IH [OF this] obtain pre m post where
        h: "tc = pre @ m # post" "\<not> stale now m" "similar n m"
           "\<forall>e \<in> set pre. stale now e \<or> \<not> similar n e"
           "snd (scanTitles now n tc) = filter (\<lambda>e. \<not> stale now e) pre @ m # post"
        by blast
      from h fresh False step have
        "a # tc = (a # pre) @ m # post \<and> \<not> stale now m \<and> similar n m
         \<and> (\<forall>e \<in> set (a # pre). stale now e \<or> \<not> similar n e)
         \<and> snd (scanTitles now n (a # tc)) = filter (\<lambda>e. \<not> stale now e) (a # pre) @ m # post"
        by simp
      then show ?thesis by blast
    qed
  qed
qed



text \<open>
  Claim C7, as stated, fails: the loop returns at the first fresh cached title that
  matches, and the entries behind it are not visited. Here the first entry matches and
  the second, 4,000,000 ms old, stays in the map.
\<close>

theorem isSimilarTitleExists_purge_counterexample:
  "isSimilarTitleExists 4000000 ''Fed'' [(''fed'', 3999999), (''old news'', 0)]
     = (True, [(''fed'', 3999999), (''old news'', 0)])
   \<and> stale 4000000 (''old news'', 0)"
  by code_simp

text \<open>
  Claim C7, amended. A call deletes every entry older than 3,600,000 ms that comes, in
  insertion order, before the first fresh entry matching the title, and deletes nothing
  else. When the call returns false there is no such match: the map is left with
  exactly its fresh entries, and no stale entry remains.
\<close>

theorem isSimilarTitleExists_purge:
  "(\<not> fst (isSimilarTitleExists now t tc) \<longrightarrow>
      snd (isSimilarTitleExists now t tc) = filter (\<lambda>e. \<not> stale now e) tc
      \<and> (\<forall>e \<in> set (snd (isSimilarTitleExists now t tc)). \<not> stale now e))
   \<and> (fst (isSimilarTitleExists now t tc) \<longrightarrow>
      (\<exists>pre m post. tc = pre @ m # post
         \<and> \<not> stale now m \<and> similar (trim (toLowerCase t)) m
         \<and> (\<forall>e \<in> set pre. stale now e \<or> \<not> similar (trim (toLowerCase t)) e)
         \<and> snd (isSimilarTitleExists now t tc) = filter (\<lambda>e. \<not> stale now e) pre @ m # post))"
proof (intro conjI impI)
  assume nf: "\<not> fst (isSimilarTitleExists now t tc)"
  then show eq: "snd (isSimilarTitleExists now t tc) = filter (\<lambda>e. \<not> stale now e) tc"
    unfolding isSimilarTitleExists_def by (rule scanTitles_not_found)
  show "\<forall>e \<in> set (snd (isSimilarTitleExists now t tc)). \<not> stale now e"
    unfolding eq by simp
next
  assume "fst (isSimilarTitleExists now t tc)"
  then show "\<exists>pre m post. tc = pre @ m # post
         \<and> \<not> stale now m \<and> similar (trim (toLowerCase t)) m
         \<and> (\<forall>e \<in> set pre. stale now e \<or> \<not> similar (trim (toLowerCase t)) e)
         \<and> snd (isSimilarTitleExists now t tc) = filter (\<lambda>e. \<not> stale now e) pre @ m # post"
    unfolding isSimilarTitleExists_def by (rule scanTitles_first_match)
qed

theorem isSimilarTitleExists_purge_witness:
  "\<not> fst (isSimilarTitleExists 4000000 ''Fed'' [(''old news'', 0), (''nifty slips'', 3999000)])
   \<and> snd (isSimilarTitleExists 4000000 ''Fed'' [(''old news'', 0), (''nifty slips'', 3999000)])
       = [(''nifty slips'', 3999000)]"
proof -
  let ?tc = "[(''old news'', 0 :: int), (''nifty slips'', 3999000)]"
  have nf: "\<not> fst (isSimilarTitleExists 4000000 ''Fed'' ?tc)"
    by code_simp
  have keep: "filter (\<lambda>e. \<not> stale 4000000 e) ?tc = [(''nifty slips'', 3999000)]"
    by (simp add: stale_def)
  from isSimilarTitleExists_purge [of 4000000 "''Fed''" ?tc]
  have "\<not> fst (isSimilarTitleExists 4000000 ''Fed'' ?tc) \<longrightarrow>
      snd (isSimilarTitleExists 4000000 ''Fed'' ?tc) = filter (\<lambda>e. \<not> stale 4000000 e) ?tc
      \<and> (\<forall>e \<in> set (snd (isSimilarTitleExists 4000000 ''Fed'' ?tc)). \<not> stale 4000000 e)"
    by (rule conjunct1)
  with nf have "snd (isSimilarTitleExists 4000000 ''Fed'' ?tc) = filter (\<lambda>e. \<not> stale 4000000 e) ?tc"
    by blast
  with keep nf show ?thesis by (simp only: simp_thms)
qed

section \<open>Relevance\<close>

lemma isMarketRelevantI:
  "keyword \<in> set MARKET_KEYWORDS \<Longrightarrow> str_includes (content a) (toLowerCase keyword)
   \<Longrightarrow> isMarketRelevant a"
  unfolding isMarketRelevant_def list_ex_iff by blast

text \<open>
  Claim C5, as stated, fails: the keywords are not looked up in the plain concatenation
  of title and snippet. For the title \<open>Trade\<close> and the snippet \<open>war\<close> the code searches
  \<open>trade war\<close> and finds the keyword \<open>trade war\<close>, while the concatenation \<open>tradewar\<close>
  contains no keyword.
\<close>

theorem isMarketRelevant_concatenation_counterexample:
  "isMarketRelevant \<lparr>guid = None, link = None, title = ''Trade'', contentSnippet = Some ''war'',
       creator = None, author = None, isoDate = None\<rparr>
   \<and> \<not> relevantIn (toLowerCase (''Trade'' @ ''war''))"
proof -
  let ?a = "\<lparr>guid = None, link = None, title = ''Trade'', contentSnippet = Some ''war'',
       creator = None, author = None, isoDate = None\<rparr>"
  have "str_includes (content ?a) (toLowerCase ''trade war'')" by code_simp
  moreover have "''trade war'' \<in> set MARKET_KEYWORDS" by (simp add: MARKET_KEYWORDS_def)
  ultimately have "isMarketRelevant ?a" by (rule isMarketRelevantI [rotated])
  moreover have "\<not> relevantIn (toLowerCase (''Trade'' @ ''war''))" by code_simp
  ultimately show ?thesis by (rule conjI)
qed

text \<open>
  Claim C5, amended. \<open>isMarketRelevant\<close> returns true exactly when some keyword of the
  market list, lowercased, is a substring of the lowercased text made of the title, one
  space and the snippet (the empty string when the snippet is absent). The match is a
  plain substring match, with no word boundary.
\<close>

theorem isMarketRelevant_iff:
  "isMarketRelevant a \<longleftrightarrow>
     (\<exists>kw \<in> set MARKET_KEYWORDS. \<exists>p q.
        toLowerCase (title a @ '' '' @ (case contentSnippet a of None \<Rightarrow> [] | Some s \<Rightarrow> s))
          = p @ toLowerCase kw @ q)"
  unfolding isMarketRelevant_def list_ex_iff str_includes_iff content_def snippet_def ..

theorem isMarketRelevant_iff_witness:
  "isMarketRelevant \<lparr>guid = None, link = None, title = ''Fed raises interest rates'',
       contentSnippet = Some [], creator = None, author = None, isoDate = None\<rparr>
   \<and> isMarketRelevant \<lparr>guid = None, link = None, title = ''Fed raises interest rates'',
       contentSnippet = None, creator = None, author = None, isoDate = None\<rparr>"
proof -
  have kw: "''fed'' \<in> set MARKET_KEYWORDS" by (simp add: MARKET_KEYWORDS_def)
  have lc: "toLowerCase (''Fed raises interest rates'' @ '' '' @ []) = [] @ toLowerCase ''fed'' @ '' raises interest rates ''"
    by code_simp
  have "\<exists>kw \<in> set MARKET_KEYWORDS. \<exists>p q.
        toLowerCase (''Fed raises interest rates'' @ '' '' @ []) = p @ toLowerCase kw @ q"
    using kw lc by blast
  then show ?thesis
    using isMarketRelevant_iff [of "\<lparr>guid = None, link = None, title = ''Fed raises interest rates'',
       contentSnippet = Some [], creator = None, author = None, isoDate = None\<rparr>"]
      isMarketRelevant_iff [of "\<lparr>guid = None, link = None, title = ''Fed raises interest rates'',
       contentSnippet = None, creator = None, author = None, isoDate = None\<rparr>"]
    by simp
qed

section \<open>Whole-word matches\<close>

lemma occurrence_nth:
  assumes "take (length kw) (drop i s) = kw" "i + length kw \<le> length s" "j < length kw"
  shows "s ! (i + j) = kw ! j"
proof -
  from assms(1) have "kw ! j = take (length kw) (drop i s) ! j" by simp
  also from assms(3) have "\<dots> = drop i s ! j" by simp
  also from assms(2,3) have "\<dots> = s ! (i + j)" by simp
  finally show ?thesis by simp
qed

lemma occurrence_wordCharAt:
  assumes "take (length kw) (drop i s) = kw" "i + length kw \<le> length s"
    and "\<forall>c \<in> set kw. isWordChar c" "j < length kw"
  shows "wordCharAt s (i + j)"
proof -
  from assms(1,2,4) have "s ! (i + j) = kw ! j" by (rule occurrence_nth)
  moreover from assms(3,4) have "isWordChar (kw ! j)" by simp
  moreover from assms(2,4) have "i + j < length s" by simp
  ultimately show ?thesis by (simp add: wordCharAt_def)
qed

lemma matchAt_iff_bounded:
  assumes kw: "kw \<noteq> []" "\<forall>c \<in> set kw. isWordChar c"
  shows "matchAt kw s i = boundedOccurrence kw s i"
proof (cases "i + length kw \<le> length s \<and> take (length kw) (drop i s) = kw")
  case False
  then show ?thesis by (auto simp: matchAt_def boundedOccurrence_def)
next
  case True
  then have occ: "take (length kw) (drop i s) = kw" "i + length kw \<le> length s" by simp_all
  from kw(1) have pos: "0 < length kw" by simp
  from occ kw(2) pos have first: "wordCharAt s i"
    using occurrence_wordCharAt [of kw i s 0] by simp
  from occ kw(2) pos have "wordCharAt s (i + (length kw - 1))"
    using occurrence_wordCharAt [of kw i s "length kw - 1"] by simp
  moreover from pos have "i + (length kw - 1) = i + length kw - 1" by arith
  ultimately have last: "wordCharAt s (i + length kw - 1)" by simp
  from occ(2) pos have ilt: "i < length s" and p2: "0 < i + length kw" by arith+
  from ilt have w1: "wordCharAt s (i - 1) = isWordChar (s ! (i - 1))"
    by (simp add: wordCharAt_def less_imp_diff_less)
  from occ(2) have w2: "wordCharAt s (i + length kw)
      \<longleftrightarrow> i + length kw \<noteq> length s \<and> isWordChar (s ! (i + length kw))"
    by (auto simp: wordCharAt_def)
  from first w1 have b1: "isWordBoundary s i \<longleftrightarrow> (i = 0 \<or> \<not> isWordChar (s ! (i - 1)))"
    by (auto simp: isWordBoundary_def)
  from last p2 w2 have b2: "isWordBoundary s (i + length kw)
       \<longleftrightarrow> (i + length kw = length s \<or> \<not> isWordChar (s ! (i + length kw)))"
    by (auto simp: isWordBoundary_def)
  from True b1 b2 show ?thesis by (simp add: matchAt_def boundedOccurrence_def)
qed

lemma matchAt_no_overlap:
  assumes kw: "\<forall>c \<in> set kw. isWordChar c"
    and m: "matchAt kw s i" and j: "i < j" "j < i + length kw"
  shows "\<not> matchAt kw s j"
proof -
  from m have occ: "take (length kw) (drop i s) = kw" "i + length kw \<le> length s"
    by (simp_all add: matchAt_def)
  from j have "j - 1 - i < length kw" "j - i < length kw" by simp_all
  with occ kw have "wordCharAt s (i + (j - 1 - i))" "wordCharAt s (i + (j - i))"
    by (simp_all add: occurrence_wordCharAt)
  with j have "wordCharAt s (j - 1)" "wordCharAt s j" by simp_all
  with j have "\<not> isWordBoundary s j" by (simp add: isWordBoundary_def)
  then show ?thesis by (simp add: matchAt_def)
qed

declare matchCount.simps [simp del]

lemma matchCount_filter:
  "kw \<noteq> [] \<Longrightarrow> \<forall>c \<in> set kw. isWordChar c \<Longrightarrow>
   matchCount kw s i = length (filter (matchAt kw s) [i ..< Suc (length s)])"
proof (induction kw s i rule: matchCount.induct)
  case (1 kw s i)
  show ?case
  proof (cases "length s < i")
    case True
    then show ?thesis by (subst matchCount.simps) simp
  next
    case inside: False
    then have upt: "[i ..< Suc (length s)] = i # [Suc i ..< Suc (length s)]"
      by (simp add: upt_conv_Cons)
    show ?thesis
    proof (cases "matchAt kw s i")
      case False
      with inside "1.IH"(2) "1.prems"
      have "matchCount kw s (i + 1) = length (filter (matchAt kw s) [i + 1 ..< Suc (length s)])"
        by blast
      with inside False upt show ?thesis by (subst matchCount.simps) simp
    next
      case True
      from "1.prems"(1) have n: "max 1 (length kw) = length kw" "0 < length kw"
        by (simp_all add: Suc_leI max_absorb2)
      from True have fits: "i + length kw \<le> length s" by (simp add: matchAt_def)
      from inside True "1.IH"(1) "1.prems"
      have "matchCount kw s (i + max 1 (length kw))
            = length (filter (matchAt kw s) [i + max 1 (length kw) ..< Suc (length s)])"
        by blast
      then have IH: "matchCount kw s (i + length kw)
            = length (filter (matchAt kw s) [i + length kw ..< Suc (length s)])"
        by (simp only: n)
      have none: "filter (matchAt kw s) [Suc i ..< i + length kw] = []"
        using matchAt_no_overlap [OF "1.prems"(2) True] by (simp add: filter_empty_conv)
      from fits n(2) have "Suc i \<le> i + length kw"
        and "Suc (length s) = (i + length kw) + (Suc (length s) - (i + length kw))"
        by arith+
      then have "[Suc i ..< Suc (length s)]
                 = [Suc i ..< i + length kw] @ [i + length kw ..< Suc (length s)]"
        by (metis upt_add_eq_append)
      with upt none True have "length (filter (matchAt kw s) [i ..< Suc (length s)])
            = Suc (length (filter (matchAt kw s) [i + length kw ..< Suc (length s)]))"
        by (simp del: upt_Suc)
      moreover from inside True have "matchCount kw s i = Suc (matchCount kw s (i + max 1 (length kw)))"
        by (subst matchCount.simps) simp
      ultimately show ?thesis using IH by (simp only: n)
    qed
  qed
qed

lemma foldl_add_sum_list:
  "foldl (\<lambda>total k. total + f k) a ks = (a :: nat) + sum_list (map f ks)"
  by (induction ks arbitrary: a) simp_all

lemma keywordScore_occurrences:
  assumes "\<forall>kw \<in> set keywords. toLowerCase kw \<noteq> [] \<and> (\<forall>c \<in> set (toLowerCase kw). isWordChar c)"
  shows "keywordScore keywords c = sum_list (map (\<lambda>kw. wordOccurrences (toLowerCase kw) c) keywords)"
proof -
  have "matchCount (toLowerCase kw) c 0 = wordOccurrences (toLowerCase kw) c"
    if "kw \<in> set keywords" for kw
  proof -
    from that assms have k: "toLowerCase kw \<noteq> []" "\<forall>ch \<in> set (toLowerCase kw). isWordChar ch"
      by blast+
    have "matchAt (toLowerCase kw) c = boundedOccurrence (toLowerCase kw) c"
      using matchAt_iff_bounded [OF k] by (rule ext)
    with matchCount_filter [OF k, of c 0] show ?thesis
      by (simp add: wordOccurrences_def)
  qed
  then have eq: "map (\<lambda>kw. matchCount (toLowerCase kw) c 0) keywords
           = map (\<lambda>kw. wordOccurrences (toLowerCase kw) c) keywords"
    by simp
  show ?thesis
    unfolding keywordScore_def foldl_add_sum_list eq by simp
qed

lemma positive_keywords_words:
  "\<forall>kw \<in> set POSITIVE_KEYWORDS. toLowerCase kw \<noteq> [] \<and> (\<forall>c \<in> set (toLowerCase kw). isWordChar c)"
proof -
  have "list_all (\<lambda>kw. toLowerCase kw \<noteq> [] \<and> list_all isWordChar (toLowerCase kw)) POSITIVE_KEYWORDS"
    by code_simp
  then show ?thesis by (simp add: list_all_iff)
qed

lemma negative_keywords_words:
  "\<forall>kw \<in> set NEGATIVE_KEYWORDS. toLowerCase kw \<noteq> [] \<and> (\<forall>c \<in> set (toLowerCase kw). isWordChar c)"
proof -
  have "list_all (\<lambda>kw. toLowerCase kw \<noteq> [] \<and> list_all isWordChar (toLowerCase kw)) NEGATIVE_KEYWORDS"
    by code_simp
  then show ?thesis by (simp add: list_all_iff)
qed

lemma sentimentScoreOf_keywordScore:
  "sentimentScoreOf text = int (keywordScore POSITIVE_KEYWORDS text) - int (keywordScore NEGATIVE_KEYWORDS text)"
  by (simp only: sentimentScoreOf_def keywordScore_occurrences [OF positive_keywords_words]
        keywordScore_occurrences [OF negative_keywords_words])

lemma boundedOccurrence_split:
  assumes "kw \<noteq> []"
  shows "boundedOccurrence kw (pre @ rest) (length pre)
         \<longleftrightarrow> \<not> (pre \<noteq> [] \<and> isWordChar (last pre)) \<and> wordHere kw rest"
proof -
  have occ: "length pre + length kw \<le> length (pre @ rest) \<and> take (length kw) (drop (length pre) (pre @ rest)) = kw
        \<longleftrightarrow> (\<exists>post. rest = kw @ post)"
    by (auto simp: take_length_eq_iff)
  have before: "(length pre = 0 \<or> \<not> isWordChar ((pre @ rest) ! (length pre - 1)))
        \<longleftrightarrow> \<not> (pre \<noteq> [] \<and> isWordChar (last pre))"
    by (cases pre rule: rev_cases) (simp_all add: nth_append)
  have after: "(length pre + length kw = length (pre @ kw @ post)
                \<or> \<not> isWordChar ((pre @ kw @ post) ! (length pre + length kw)))
        \<longleftrightarrow> (post = [] \<or> \<not> isWordChar (hd post))" for post
    by (cases post) (simp_all add: nth_append)
  show ?thesis
  proof (cases "\<exists>post. rest = kw @ post")
    case False
    with occ have "\<not> (length pre + length kw \<le> length (pre @ rest)
        \<and> take (length kw) (drop (length pre) (pre @ rest)) = kw)"
      by blast
    then have "\<not> boundedOccurrence kw (pre @ rest) (length pre)"
      unfolding boundedOccurrence_def by blast
    moreover from False have "\<not> wordHere kw rest"
      unfolding wordHere_def by blast
    ultimately show ?thesis by blast
  next
    case True
    then obtain post where post: "rest = kw @ post" by blast
    then have here: "wordHere kw rest \<longleftrightarrow> (post = [] \<or> \<not> isWordChar (hd post))"
      by (simp add: wordHere_def)
    from post occ have "length pre + length kw \<le> length (pre @ rest)"
      "take (length kw) (drop (length pre) (pre @ rest)) = kw" by simp_all
    then have "boundedOccurrence kw (pre @ rest) (length pre) \<longleftrightarrow>
       (length pre = 0 \<or> \<not> isWordChar ((pre @ rest) ! (length pre - 1)))
       \<and> (length pre + length kw = length (pre @ rest)
                \<or> \<not> isWordChar ((pre @ rest) ! (length pre + length kw)))"
      unfolding boundedOccurrence_def by blast
    also have "\<dots> \<longleftrightarrow> \<not> (pre \<noteq> [] \<and> isWordChar (last pre)) \<and> wordHere kw rest"
      unfolding before here unfolding post after ..
    finally show ?thesis .
  qed
qed

lemma wordHere_Nil: "kw \<noteq> [] \<Longrightarrow> \<not> wordHere kw []"
  by (simp add: wordHere_def)

lemma positions_wordCount:
  assumes "kw \<noteq> []"
  shows "length (filter (boundedOccurrence kw (pre @ rest)) [length pre ..< Suc (length (pre @ rest))])
         = wordCount kw (pre \<noteq> [] \<and> isWordChar (last pre)) rest"
proof (induction rest arbitrary: pre)
  case Nil
  from assms have "\<not> boundedOccurrence kw (pre @ []) (length pre)"
    unfolding boundedOccurrence_split [OF assms] by (simp add: wordHere_Nil)
  then show ?case by simp
next
  case (Cons c cs)
  have upt: "[length pre ..< Suc (length (pre @ c # cs))]
             = length pre # [length (pre @ [c]) ..< Suc (length ((pre @ [c]) @ cs))]"
    by (simp add: upt_conv_Cons del: upt_Suc)
  have here: "boundedOccurrence kw (pre @ c # cs) (length pre)
         \<longleftrightarrow> \<not> (pre \<noteq> [] \<and> isWordChar (last pre)) \<and> wordHere kw (c # cs)"
    by (rule boundedOccurrence_split [OF assms])
  have "length (filter (boundedOccurrence kw ((pre @ [c]) @ cs))
                 [length (pre @ [c]) ..< Suc (length ((pre @ [c]) @ cs))])
        = wordCount kw (isWordChar c) cs"
    using Cons.IH [of "pre @ [c]"] by simp
  moreover have "pre @ c # cs = (pre @ [c]) @ cs" by simp
  ultimately have rest: "length (filter (boundedOccurrence kw (pre @ c # cs))
                 [length (pre @ [c]) ..< Suc (length ((pre @ [c]) @ cs))])
        = wordCount kw (isWordChar c) cs"
    by (simp only:)
  show ?case
    unfolding upt using here rest by (simp del: upt_Suc)
qed

lemma wordHere_nonword:
  assumes "kw \<noteq> []" "\<forall>ch \<in> set kw. isWordChar ch" "\<not> isWordChar c"
  shows "\<not> wordHere kw (c # cs)"
proof
  assume "wordHere kw (c # cs)"
  then obtain post where "c # cs = kw @ post" unfolding wordHere_def by blast
  with assms(1) have "c = hd kw" by (cases kw) simp_all
  with assms(1,2) have "isWordChar c" by simp
  with assms(3) show False by simp
qed

lemma wordHere_word:
  assumes "kw \<noteq> []" "\<forall>ch \<in> set kw. isWordChar ch"
  shows "wordHere kw rest \<longleftrightarrow> takeWhile isWordChar rest = kw"
proof
  assume "wordHere kw rest"
  then obtain post where post: "rest = kw @ post" "post = [] \<or> \<not> isWordChar (hd post)"
    unfolding wordHere_def by blast
  from post(2) have "takeWhile isWordChar post = []" by (cases post) auto
  with post(1) assms(2) show "takeWhile isWordChar rest = kw"
    by (simp add: takeWhile_append2)
next
  assume tw: "takeWhile isWordChar rest = kw"
  have "rest = takeWhile isWordChar rest @ dropWhile isWordChar rest" by simp
  with tw have "rest = kw @ dropWhile isWordChar rest" by simp
  moreover have "dropWhile isWordChar rest = [] \<or> \<not> isWordChar (hd (dropWhile isWordChar rest))"
    using hd_dropWhile [of isWordChar rest] by blast
  ultimately show "wordHere kw rest" unfolding wordHere_def by blast
qed

lemma wordCount_inWord:
  assumes "kw \<noteq> []" "\<forall>ch \<in> set kw. isWordChar ch"
  shows "wordCount kw True cs = wordCount kw False (dropWhile isWordChar cs)"
proof (induction cs)
  case Nil
  show ?case by simp
next
  case (Cons d ds)
  show ?case
  proof (cases "isWordChar d")
    case True
    with Cons show ?thesis by simp
  next
    case False
    with assms have "\<not> wordHere kw (d # ds)" by (simp add: wordHere_nonword)
    with False show ?thesis by simp
  qed
qed

lemma wordCount_tokens:
  assumes "kw \<noteq> []" "\<forall>ch \<in> set kw. isWordChar ch"
  shows "wordCount kw False s = count_list (tokens s) kw"
proof (induction s rule: tokens.induct)
  case 1
  show ?case by simp
next
  case (2 c cs)
  show ?case
  proof (cases "isWordChar c")
    case False
    with assms have "\<not> wordHere kw (c # cs)" by (simp add: wordHere_nonword)
    with False 2 show ?thesis by simp
  next
    case True
    with 2 have IH: "wordCount kw False (dropWhile isWordChar cs)
                      = count_list (tokens (dropWhile isWordChar cs)) kw"
      by blast
    from True have "wordCount kw False (c # cs)
        = (if wordHere kw (c # cs) then 1 else 0) + wordCount kw True cs"
      by simp
    also have "\<dots> = (if takeWhile isWordChar (c # cs) = kw then 1 else 0)
                      + wordCount kw False (dropWhile isWordChar cs)"
      by (simp only: wordHere_word [OF assms] wordCount_inWord [OF assms])
    also from True IH have "\<dots> = count_list (tokens (c # cs)) kw"
      by simp
    finally show ?thesis .
  qed
qed

lemma wordOccurrences_tokens:
  assumes "kw \<noteq> []" "\<forall>ch \<in> set kw. isWordChar ch"
  shows "wordOccurrences kw s = count_list (tokens s) kw"
proof -
  have "wordOccurrences kw s
        = length (filter (boundedOccurrence kw ([] @ s)) [length ([] :: string) ..< Suc (length ([] @ s))])"
    by (simp add: wordOccurrences_def)
  also have "\<dots> = wordCount kw False s"
    by (simp only: positions_wordCount [OF assms(1)]) simp
  finally show ?thesis by (simp only: wordCount_tokens [OF assms])
qed

lemma keywordScore_tokens:
  assumes "\<forall>kw \<in> set keywords. toLowerCase kw \<noteq> [] \<and> (\<forall>c \<in> set (toLowerCase kw). isWordChar c)"
  shows "keywordScore keywords c = sum_list (map (\<lambda>kw. count_list (tokens c) (toLowerCase kw)) keywords)"
proof -
  from assms have "map (\<lambda>kw. wordOccurrences (toLowerCase kw) c) keywords
           = map (\<lambda>kw. count_list (tokens c) (toLowerCase kw)) keywords"
    by (simp add: wordOccurrences_tokens)
  then show ?thesis
    by (simp only: keywordScore_occurrences [OF assms])
qed

lemmas positiveScore_tokens = keywordScore_tokens [OF positive_keywords_words]
lemmas negativeScore_tokens = keywordScore_tokens [OF negative_keywords_words]

text \<open>
  Claim C4, as stated, fails: the score is not computed over the plain concatenation of
  title and snippet. For the title \<open>up\<close> and the snippet \<open>up\<close> the code scores the text
  \<open>up up\<close>, with two whole words \<open>up\<close>, and returns 2; the concatenation \<open>upup\<close> has no
  word-bounded occurrence of any keyword and its count is 0.
\<close>

theorem analyzeSentiment_concatenation_counterexample:
  "score (analyzeSentiment \<lparr>guid = None, link = None, title = ''up'', contentSnippet = Some ''up'',
            creator = None, author = None, isoDate = None\<rparr>) = 2
   \<and> sentimentScoreOf (toLowerCase (''up'' @ ''up'')) = 0"
proof -
  have t1: "tokens ''up up'' = [''up'', ''up'']" and t2: "tokens ''upup'' = [''upup'']"
    by code_simp+
  have "keywordScore POSITIVE_KEYWORDS ''up up'' = 2"
    unfolding positiveScore_tokens t1 by code_simp
  moreover have "keywordScore NEGATIVE_KEYWORDS ''up up'' = 0"
    unfolding negativeScore_tokens t1 by code_simp
  moreover have "keywordScore POSITIVE_KEYWORDS ''upup'' = 0"
    unfolding positiveScore_tokens t2 by code_simp
  moreover have "keywordScore NEGATIVE_KEYWORDS ''upup'' = 0"
    unfolding negativeScore_tokens t2 by code_simp
  moreover have "toLowerCase ''up up'' = ''up up''" "toLowerCase ''upup'' = ''upup''" by code_simp+
  ultimately show ?thesis
    by (simp add: analyzeSentiment_def content_def snippet_def sentimentScoreOf_keywordScore)
qed

text \<open>
  Claim C4, amended. \<open>analyzeSentiment\<close> works on the lowercased text made of the title,
  one space and the snippet (the empty string when the snippet is absent). Its score is
  the number of word-bounded occurrences of the positive keywords in that text minus the
  number for the negative keywords; the label is positive exactly when the score is
  above 0, negative exactly when it is below 0, neutral exactly when it is 0. Two
  word-bounded occurrences of one keyword never overlap, in any text.
\<close>

theorem analyzeSentiment_score:
  "score (analyzeSentiment a)
     = sentimentScoreOf (toLowerCase (title a @ '' '' @ (case contentSnippet a of None \<Rightarrow> [] | Some s \<Rightarrow> s)))
   \<and> (sentiment (analyzeSentiment a) = ''positive'' \<longleftrightarrow> score (analyzeSentiment a) > 0)
   \<and> (sentiment (analyzeSentiment a) = ''negative'' \<longleftrightarrow> score (analyzeSentiment a) < 0)
   \<and> (sentiment (analyzeSentiment a) = ''neutral'' \<longleftrightarrow> score (analyzeSentiment a) = 0)
   \<and> (\<forall>kw \<in> set POSITIVE_KEYWORDS \<union> set NEGATIVE_KEYWORDS. \<forall>i j.
         i < j \<and> boundedOccurrence (toLowerCase kw) text i \<and> boundedOccurrence (toLowerCase kw) text j
         \<longrightarrow> i + length (toLowerCase kw) \<le> j)"
proof -
  have c: "toLowerCase (title a @ '' '' @ (case contentSnippet a of None \<Rightarrow> [] | Some s \<Rightarrow> s)) = content a"
    by (simp add: content_def snippet_def)
  have sc: "score (analyzeSentiment a)
     = sentimentScoreOf (toLowerCase (title a @ '' '' @ (case contentSnippet a of None \<Rightarrow> [] | Some s \<Rightarrow> s)))
   \<and> (sentiment (analyzeSentiment a) = ''positive'' \<longleftrightarrow> score (analyzeSentiment a) > 0)
   \<and> (sentiment (analyzeSentiment a) = ''negative'' \<longleftrightarrow> score (analyzeSentiment a) < 0)
   \<and> (sentiment (analyzeSentiment a) = ''neutral'' \<longleftrightarrow> score (analyzeSentiment a) = 0)"
    unfolding c sentimentScoreOf_keywordScore
    by (simp add: analyzeSentiment_def Let_def)
  have apart: "i + length (toLowerCase kw) \<le> j"
    if kw: "kw \<in> set POSITIVE_KEYWORDS \<union> set NEGATIVE_KEYWORDS"
      and ij: "i < j" "boundedOccurrence (toLowerCase kw) text i" "boundedOccurrence (toLowerCase kw) text j"
    for kw i j
  proof (rule ccontr)
    assume "\<not> i + length (toLowerCase kw) \<le> j"
    then have near: "j < i + length (toLowerCase kw)" by simp
    from kw positive_keywords_words negative_keywords_words
    have k: "toLowerCase kw \<noteq> []" "\<forall>ch \<in> set (toLowerCase kw). isWordChar ch"
      by blast+
    from ij(2,3) have "matchAt (toLowerCase kw) text i" "matchAt (toLowerCase kw) text j"
      by (simp_all only: matchAt_iff_bounded [OF k])
    with matchAt_no_overlap [OF k(2) _ ij(1) near] show False by blast
  qed
  from sc apart show ?thesis by blast
qed

theorem analyzeSentiment_score_witness:
  "score (analyzeSentiment \<lparr>guid = None, link = None, title = ''Stocks surge as rally continues'',
            contentSnippet = Some [], creator = None, author = None, isoDate = None\<rparr>) = 2
   \<and> sentiment (analyzeSentiment \<lparr>guid = None, link = None, title = ''Stocks surge as rally continues'',
            contentSnippet = Some [], creator = None, author = None, isoDate = None\<rparr>) = ''positive''
   \<and> sentimentScoreOf ''stocks surge as rally continues '' = 2"
proof -
  let ?a = "\<lparr>guid = None, link = None, title = ''Stocks surge as rally continues'',
            contentSnippet = Some [], creator = None, author = None, isoDate = None\<rparr>"
  have c: "toLowerCase (title ?a @ '' '' @ (case contentSnippet ?a of None \<Rightarrow> [] | Some s \<Rightarrow> s))
           = ''stocks surge as rally continues ''"
    by code_simp
  have t: "tokens ''stocks surge as rally continues ''
           = [''stocks'', ''surge'', ''as'', ''rally'', ''continues'']"
    by code_simp
  have p: "keywordScore POSITIVE_KEYWORDS ''stocks surge as rally continues '' = 2"
    unfolding positiveScore_tokens t by code_simp
  have n: "keywordScore NEGATIVE_KEYWORDS ''stocks surge as rally continues '' = 0"
    unfolding negativeScore_tokens t by code_simp
  from p n have s: "sentimentScoreOf ''stocks surge as rally continues '' = 2"
    by (simp add: sentimentScoreOf_keywordScore)
  from analyzeSentiment_score [of ?a] have
    "score (analyzeSentiment ?a) = sentimentScoreOf ''stocks surge as rally continues ''"
    and "sentiment (analyzeSentiment ?a) = ''positive'' \<longleftrightarrow> score (analyzeSentiment ?a) > 0"
    unfolding c by blast+
  with s show ?thesis by simp
qed

section \<open>Delivery\<close>

declare sendLoop.simps [simp del]

lemma sendLoop_done: "sendLoop e msg (Suc (Suc (Suc 0))) w = (None, emit [MaxRetries] w)"
  by (subst sendLoop.simps) (simp add: maxRetries_def)

lemma sendLoop_try:
  "retries < 3 \<Longrightarrow> sendLoop e msg retries w =
     (case sendMessage e (sends w) msg of
        Resolved \<Rightarrow> (None, emit (attemptEvents msg Resolved) (w\<lparr>sends := Suc (sends w)\<rparr>))
      | Rejected m \<Rightarrow>
          if str_includes m ''429''
          then sendLoop e msg (Suc retries) (emit (attemptEvents msg (Rejected m)) (w\<lparr>sends := Suc (sends w)\<rparr>))
          else (None, emit (attemptEvents msg (Rejected m)) (w\<lparr>sends := Suc (sends w)\<rparr>)))"
  by (subst sendLoop.simps) (simp add: maxRetries_def emit_def Let_def split: send_result.splits)

lemma emit_emit: "emit ys (emit xs w) = emit (xs @ ys) w"
  by (simp add: emit_def)

lemma emit_fields [simp]:
  "store (emit evs w) = store w" "sends (emit evs w) = sends w" "reads (emit evs w) = reads w"
  "trace (emit evs w) = trace w @ evs"
  by (simp_all add: emit_def)


lemma world_sends_update [simp]:
  "store (w\<lparr>sends := n\<rparr>) = store w" "reads (w\<lparr>sends := n\<rparr>) = reads w"
  "trace (w\<lparr>sends := n\<rparr>) = trace w" "sends (w\<lparr>sends := n\<rparr>) = n"
  by simp_all


lemma sendToTelegram_cases:
  "sendToTelegram e msg w =
     (None,
      let r0 = sendMessage e (sends w) msg;
          r1 = sendMessage e (sends w + 1) msg;
          r2 = sendMessage e (sends w + 2) msg;
          w1 = emit (attemptEvents msg r0) (w\<lparr>sends := sends w + 1\<rparr>);
          w2 = emit (attemptEvents msg r1) (w1\<lparr>sends := sends w + 2\<rparr>);
          w3 = emit (attemptEvents msg r2) (w2\<lparr>sends := sends w + 3\<rparr>)
      in if \<not> rateLimited r0 then w1
         else if \<not> rateLimited r1 then w2
         else if \<not> rateLimited r2 then w3
         else emit [MaxRetries] w3)"
proof -
  let ?r0 = "sendMessage e (sends w) msg"
  let ?r1 = "sendMessage e (sends w + 1) msg"
  let ?r2 = "sendMessage e (sends w + 2) msg"
  let ?w1 = "emit (attemptEvents msg ?r0) (w\<lparr>sends := sends w + 1\<rparr>)"
  let ?w2 = "emit (attemptEvents msg ?r1) (?w1\<lparr>sends := sends w + 2\<rparr>)"
  let ?w3 = "emit (attemptEvents msg ?r2) (?w2\<lparr>sends := sends w + 3\<rparr>)"
  have s0: "sendLoop e msg 0 w = (if rateLimited ?r0 then sendLoop e msg (Suc 0) ?w1 else (None, ?w1))"
    by (simp add: sendLoop_try split: send_result.splits)
  have s1: "sendLoop e msg (Suc 0) ?w1
            = (if rateLimited ?r1 then sendLoop e msg (Suc (Suc 0)) ?w2 else (None, ?w2))"
    by (simp add: sendLoop_try split: send_result.splits)
  have s2: "sendLoop e msg (Suc (Suc 0)) ?w2
            = (if rateLimited ?r2 then (None, emit [MaxRetries] ?w3) else (None, ?w3))"
    by (simp add: sendLoop_try sendLoop_done split: send_result.splits)
  show ?thesis
    unfolding sendToTelegram_def s0 s1 s2 by (simp add: Let_def)
qed

lemma sendToTelegram_fst: "fst (sendToTelegram e msg w) = None"
  by (simp add: sendToTelegram_cases)

lemma sendToTelegram_store: "store (snd (sendToTelegram e msg w)) = store w"
  by (simp add: sendToTelegram_cases Let_def)

lemma sendToTelegram_reads: "reads (snd (sendToTelegram e msg w)) = reads w"
  by (simp add: sendToTelegram_cases Let_def)

lemma attemptEvents_shape:
  "\<exists>ts. attemptEvents msg r = SendMessage msg # ts \<and> (\<forall>ev \<in> set ts. isDelivery ev)"
  by (cases r) simp_all

lemma attemptEvents_delivery: "\<forall>ev \<in> set (attemptEvents msg r). isDelivery ev"
  by (cases r) simp_all

lemma sendToTelegram_trace:
  "\<exists>ts. trace (snd (sendToTelegram e msg w)) = trace w @ SendMessage msg # ts
        \<and> (\<forall>ev \<in> set ts. isDelivery ev)"
proof -
  let ?r0 = "sendMessage e (sends w) msg"
  let ?r1 = "sendMessage e (sends w + 1) msg"
  let ?r2 = "sendMessage e (sends w + 2) msg"
  obtain ts0 where ts0: "attemptEvents msg ?r0 = SendMessage msg # ts0" "\<forall>ev \<in> set ts0. isDelivery ev"
    using attemptEvents_shape by blast
  note d = attemptEvents_delivery [of msg ?r1] attemptEvents_delivery [of msg ?r2]
  have "\<exists>rest. trace (snd (sendToTelegram e msg w)) = trace w @ attemptEvents msg ?r0 @ rest
          \<and> (\<forall>ev \<in> set rest. isDelivery ev)"
    using d by (auto simp: sendToTelegram_cases Let_def)
  then obtain rest where "trace (snd (sendToTelegram e msg w)) = trace w @ attemptEvents msg ?r0 @ rest"
      "\<forall>ev \<in> set rest. isDelivery ev"
    by blast
  with ts0 have "trace (snd (sendToTelegram e msg w)) = trace w @ SendMessage msg # (ts0 @ rest)
       \<and> (\<forall>ev \<in> set (ts0 @ rest). isDelivery ev)"
    by auto
  then show ?thesis by blast
qed



section \<open>One item of a feed\<close>



lemma sendToTelegram_resolved:
  assumes "sendMessage e (sends w) msg = Resolved"
  shows "snd (sendToTelegram e msg w) = emit [SendMessage msg, MessageSent] (w\<lparr>sends := Suc (sends w)\<rparr>)"
  using assms by (simp add: sendToTelegram_cases Let_def)

lemma titleChecked_fields [simp]:
  "articleCache (store (titleChecked e a w)) = articleCache (store w)"
  "reads (titleChecked e a w) = Suc (reads w)"
  "sends (titleChecked e a w) = sends w"
  "trace (titleChecked e a w) = trace w"
  by (simp_all add: titleChecked_def)






lemma processArticle_cached:
  "articleId a \<in> set (articleCache (store w)) \<Longrightarrow> processArticle e a w = (None, w)"
  by (simp add: processArticle_def)

lemma processArticle_similar:
  assumes "articleId a \<notin> set (articleCache (store w))"
    and "fst (isSimilarTitleExists (clock e (reads w)) (title a) (titleCache (store w)))"
  shows "processArticle e a w = (None, titleChecked e a w)"
  using assms by (simp add: processArticle_def titleChecked_def Let_def)

lemma processArticle_irrelevant:
  assumes "articleId a \<notin> set (articleCache (store w))"
    and "\<not> fst (isSimilarTitleExists (clock e (reads w)) (title a) (titleCache (store w)))"
    and "\<not> isMarketRelevant a"
  shows "processArticle e a w = (None, titleChecked e a w)"
  using assms by (simp add: processArticle_def titleChecked_def Let_def)

lemma processArticle_throw:
  assumes "articleId a \<notin> set (articleCache (store w))"
    and "\<not> fst (isSimilarTitleExists (clock e (reads w)) (title a) (titleCache (store w)))"
    and "isMarketRelevant a"
    and "formatMessage e a (analyzeSentiment a) = Inl x"
  shows "processArticle e a w = (Some x, emit [RelevantFound (title a)] (titleChecked e a w))"
  using assms by (simp add: processArticle_def titleChecked_def Let_def)

lemma processArticle_dispatch:
  assumes "articleId a \<notin> set (articleCache (store w))"
    and "\<not> fst (isSimilarTitleExists (clock e (reads w)) (title a) (titleCache (store w)))"
    and "isMarketRelevant a"
    and "formatMessage e a (analyzeSentiment a) = Inr msg"
  shows "processArticle e a w =
     (None, recordArticle e a
              (snd (sendToTelegram e msg (emit [RelevantFound (title a)] (titleChecked e a w)))))"
proof -
  let ?w2 = "emit [RelevantFound (title a)] (titleChecked e a w)"
  obtain x w3 where r: "sendToTelegram e msg ?w2 = (x, w3)" by (cases "sendToTelegram e msg ?w2")
  with sendToTelegram_fst [of e msg ?w2] have "x = None" by simp
  with r assms show ?thesis
    by (simp add: processArticle_def titleChecked_def Let_def)
qed

lemma recordArticle_trace:
  "\<exists>logs. trace (recordArticle e a w) = trace w @ AddToCache (articleId a) (title a) # logs
          \<and> (\<forall>ev \<in> set logs. isCacheLine ev)"
  by (auto simp: recordArticle_def Let_def)

lemma recordArticle_store:
  "store (recordArticle e a w) = addToCache (clock e (reads w)) (articleId a) (title a) (store w)"
  by (simp add: recordArticle_def Let_def emit_def)

lemma isDelivery_not_AddToCache: "isDelivery ev \<Longrightarrow> \<not> isAddToCache ev"
  by (cases ev) simp_all

lemma isCacheLine_not_AddToCache: "isCacheLine ev \<Longrightarrow> \<not> isAddToCache ev"
  by (cases ev) simp_all

lemma titleChecked_emit: "titleChecked e a (emit evs w) = emit evs (titleChecked e a w)"
  by (simp add: titleChecked_def emit_def)

lemma formatMessage_throws:
  assumes "\<not> truthy (creator a)" "\<not> truthy (author a)"
    and "link a = None \<or> newURL_hostname e (js_string (link a)) = Inl (Exn ''Invalid URL'')"
  shows "formatMessage e a s = Inl (Exn ''Invalid URL'')"
proof -
  have "newURL_hostname e (js_string (link a)) = Inl (Exn ''Invalid URL'')"
    using assms(3) by (auto simp: newURL_hostname_def js_string_def)
  with assms(1,2) show ?thesis by (simp add: formatMessage_def Let_def)
qed

lemma formatMessage_message:
  assumes "truthy (creator a) \<or> truthy (author a)"
  shows "formatMessage e a (analyzeSentiment a) = Inr (message e a)"
proof -
  from assms have "\<exists>m. formatMessage e a (analyzeSentiment a) = Inr m"
    by (auto simp: formatMessage_def Let_def)
  then show ?thesis by (auto simp: message_def)
qed

lemma relevant_fedUp: "isMarketRelevant fedUp"
proof -
  have "str_includes (content fedUp) (toLowerCase ''fed'')" by code_simp
  moreover have "''fed'' \<in> set MARKET_KEYWORDS" by (simp add: MARKET_KEYWORDS_def)
  ultimately show ?thesis by (rule isMarketRelevantI [rotated])
qed

lemma isMarketRelevant_samples: "isMarketRelevant gdpDown" "isMarketRelevant ipoBoom"
proof -
  have "str_includes (content gdpDown) (toLowerCase ''gdp'')" by code_simp
  moreover have "''gdp'' \<in> set MARKET_KEYWORDS" by (simp add: MARKET_KEYWORDS_def)
  ultimately show "isMarketRelevant gdpDown" by (rule isMarketRelevantI [rotated])
  have "str_includes (content ipoBoom) (toLowerCase ''ipo'')" by code_simp
  moreover have "''ipo'' \<in> set MARKET_KEYWORDS" by (simp add: MARKET_KEYWORDS_def)
  ultimately show "isMarketRelevant ipoBoom" by (rule isMarketRelevantI [rotated])
qed

lemma processArticle_sent:
  assumes "articleId a \<notin> set (articleCache (store w))"
    and "isSimilarTitleExists (clock e (reads w)) (title a) (titleCache (store w)) = (False, tc)"
    and "isMarketRelevant a"
    and "truthy (creator a) \<or> truthy (author a)"
    and "sendMessage e (sends w) (message e a) = Resolved"
  shows "processArticle e a w =
     (None, recordArticle e a
        (w\<lparr>store := (store w)\<lparr>titleCache := tc\<rparr>, reads := Suc (reads w), sends := Suc (sends w),
           trace := trace w @ [RelevantFound (title a), SendMessage (message e a), MessageSent]\<rparr>))"
proof -
  let ?w2 = "emit [RelevantFound (title a)] (titleChecked e a w)"
  from assms(2) have ns: "\<not> fst (isSimilarTitleExists (clock e (reads w)) (title a) (titleCache (store w)))"
    by simp
  from assms(5) have "snd (sendToTelegram e (message e a) ?w2)
      = emit [SendMessage (message e a), MessageSent] (?w2\<lparr>sends := Suc (sends ?w2)\<rparr>)"
    using sendToTelegram_resolved [of e ?w2 "message e a"] by simp
  with processArticle_dispatch [OF assms(1) ns assms(3) formatMessage_message [OF assms(4)]]
  show ?thesis
    using assms(2) by (simp add: emit_def titleChecked_def)
qed

lemma relevant_noLink: "isMarketRelevant noLink"
proof -
  have "str_includes (content noLink) (toLowerCase ''fed'')" by code_simp
  moreover have "''fed'' \<in> set MARKET_KEYWORDS" by (simp add: MARKET_KEYWORDS_def)
  ultimately show ?thesis by (rule isMarketRelevantI [rotated])
qed

lemma sample_fields:
  "articleId fedUp = Some ''g1''" "articleId gdpDown = Some ''g2''" "articleId ipoBoom = Some ''g3''"
  "articleId noLink = Some ''g9''"
  "title fedUp = ''Fed up''" "title gdpDown = ''GDP down''" "title ipoBoom = ''IPO boom''"
  "title noLink = ''Fed hikes rates''"
  "truthy (creator fedUp) \<or> truthy (author fedUp)"
  "truthy (creator gdpDown) \<or> truthy (author gdpDown)"
  "truthy (creator ipoBoom) \<or> truthy (author ipoBoom)"
  "\<not> truthy (creator noLink)" "\<not> truthy (author noLink)" "link noLink = None"
  by (simp_all add: fedUp_def gdpDown_def ipoBoom_def noLink_def articleId_def js_or_def truthy_def)

lemma sample_world:
  "store emptyWorld = \<lparr>articleCache = [], titleCache = []\<rparr>" "sends emptyWorld = 0"
  "reads emptyWorld = 0" "trace emptyWorld = []"
  by (simp_all add: emptyWorld_def)

lemma sample_clocks:
  "clock busyTick k = 1000 + int k" "clock rateLimitedTick k = 1000 + int k"
  "clock refusedTick k = 1000 + int k" "clock brokenFeedTick k = 1000 + int k"
  by (simp_all add: busyTick_def rateLimitedTick_def refusedTick_def brokenFeedTick_def)

lemma sample_normalized:
  "trim (toLowerCase ''Fed up'') = ''fed up''" "trim (toLowerCase ''GDP down'') = ''gdp down''"
  "trim (toLowerCase ''IPO boom'') = ''ipo boom''"
  by code_simp+

lemma isSimilarTitleExists_empty: "isSimilarTitleExists now t [] = (False, [])"
  by (simp add: isSimilarTitleExists_def)

section \<open>Recording after delivery\<close>

lemma filter_isAddToCache_delivery:
  "\<forall>ev \<in> set ts. isDelivery ev \<Longrightarrow> filter isAddToCache ts = []"
  by (simp add: filter_empty_conv isDelivery_not_AddToCache)

lemma filter_isAddToCache_lines:
  "\<forall>ev \<in> set logs. isCacheLine ev \<Longrightarrow> filter isAddToCache logs = []"
  by (simp add: filter_empty_conv isCacheLine_not_AddToCache)

text \<open>
  Claim C1, as stated, fails: an item can pass the relevance filter and never reach
  \<open>addToCache\<close>. The item here is relevant and has no creator, author or link; building
  its message throws, and the only event is the line that reports the item.
\<close>

theorem processArticle_record_counterexample:
  "isMarketRelevant noLink
   \<and> processArticle busyTick noLink emptyWorld
       = (Some (Exn ''Invalid URL''),
          \<lparr>store = \<lparr>articleCache = [], titleCache = []\<rparr>, sends = 0, reads = 1,
            trace = [RelevantFound ''Fed hikes rates'']\<rparr>)"
proof -
  have "formatMessage busyTick noLink (analyzeSentiment noLink) = Inl (Exn ''Invalid URL'')"
    by (rule formatMessage_throws) (simp_all add: sample_fields)
  then have "processArticle busyTick noLink emptyWorld
       = (Some (Exn ''Invalid URL''), emit [RelevantFound (title noLink)]
                                         (titleChecked busyTick noLink emptyWorld))"
    using relevant_noLink
    by (intro processArticle_throw) (simp_all add: sample_fields sample_world isSimilarTitleExists_empty)
  then show ?thesis
    using relevant_noLink
    by (simp add: titleChecked_def emit_def emptyWorld_def sample_fields isSimilarTitleExists_empty)
qed

text \<open>
  Claim C1, amended. For every item that is not a duplicate, passes the relevance filter
  and has a message (building it does not throw), \<open>addToCache\<close> is called exactly once,
  with the identifier and the title of the item, and only after \<open>sendToTelegram\<close> has
  returned: what the item adds to the trace is the line that reports it, the events of
  delivery, starting with the first call of \<open>bot.sendMessage\<close>, then the one call of
  \<open>addToCache\<close>, then at most the two console lines of the cache. This holds whatever
  the outcome of the delivery is.
\<close>

theorem processArticle_records_once:
  assumes "articleId a \<notin> set (articleCache (store w))"
    and "\<not> fst (isSimilarTitleExists (clock e (reads w)) (title a) (titleCache (store w)))"
    and "isMarketRelevant a"
    and "formatMessage e a (analyzeSentiment a) = Inr msg"
  shows "fst (processArticle e a w) = None
    \<and> (\<exists>ts logs. trace (snd (processArticle e a w))
           = trace w @ [RelevantFound (title a), SendMessage msg] @ ts
             @ [AddToCache (articleId a) (title a)] @ logs
         \<and> (\<forall>ev \<in> set ts. isDelivery ev) \<and> (\<forall>ev \<in> set logs. isCacheLine ev))
    \<and> length (filter isAddToCache (drop (length (trace w)) (trace (snd (processArticle e a w))))) = 1
    \<and> store (snd (processArticle e a w))
        = addToCache (clock e (Suc (reads w))) (articleId a) (title a) (store (titleChecked e a w))"
proof -
  let ?w2 = "emit [RelevantFound (title a)] (titleChecked e a w)"
  let ?w3 = "snd (sendToTelegram e msg ?w2)"
  have r: "processArticle e a w = (None, recordArticle e a ?w3)"
    using assms by (rule processArticle_dispatch)
  obtain ts where ts: "trace ?w3 = trace ?w2 @ SendMessage msg # ts" "\<forall>ev \<in> set ts. isDelivery ev"
    using sendToTelegram_trace [of e msg ?w2] by blast
  obtain logs where logs: "trace (recordArticle e a ?w3)
        = trace ?w3 @ AddToCache (articleId a) (title a) # logs" "\<forall>ev \<in> set logs. isCacheLine ev"
    using recordArticle_trace [of e a ?w3] by blast
  from ts(1) logs(1) have tr: "trace (snd (processArticle e a w))
       = trace w @ [RelevantFound (title a), SendMessage msg] @ ts
         @ [AddToCache (articleId a) (title a)] @ logs"
    by (simp add: r)
  have one: "length (filter isAddToCache (drop (length (trace w)) (trace (snd (processArticle e a w))))) = 1"
    unfolding tr using ts(2) logs(2)
    by (simp add: filter_isAddToCache_delivery filter_isAddToCache_lines)
  have st: "store (snd (processArticle e a w))
        = addToCache (clock e (Suc (reads w))) (articleId a) (title a) (store (titleChecked e a w))"
    by (simp add: r recordArticle_store sendToTelegram_store sendToTelegram_reads)
  from tr ts(2) logs(2) have "\<exists>ts logs. trace (snd (processArticle e a w))
           = trace w @ [RelevantFound (title a), SendMessage msg] @ ts
             @ [AddToCache (articleId a) (title a)] @ logs
         \<and> (\<forall>ev \<in> set ts. isDelivery ev) \<and> (\<forall>ev \<in> set logs. isCacheLine ev)"
    by blast
  with one st show ?thesis by (simp add: r)
qed

theorem processArticle_records_once_witness:
  "articleId fedUp \<notin> set (articleCache (store emptyWorld))
   \<and> \<not> fst (isSimilarTitleExists (clock rateLimitedTick (reads emptyWorld)) (title fedUp)
              (titleCache (store emptyWorld)))
   \<and> isMarketRelevant fedUp
   \<and> formatMessage rateLimitedTick fedUp (analyzeSentiment fedUp) = Inr (message rateLimitedTick fedUp)
   \<and> fst (processArticle rateLimitedTick fedUp emptyWorld) = None
   \<and> length (filter isAddToCache (trace (snd (processArticle rateLimitedTick fedUp emptyWorld)))) = 1
   \<and> articleCache (store (snd (processArticle rateLimitedTick fedUp emptyWorld))) = [Some ''g1'']"
proof -
  have h1: "articleId fedUp \<notin> set (articleCache (store emptyWorld))"
    by (simp add: sample_world)
  have h2: "\<not> fst (isSimilarTitleExists (clock rateLimitedTick (reads emptyWorld)) (title fedUp)
              (titleCache (store emptyWorld)))"
    by (simp add: sample_world isSimilarTitleExists_empty)
  note h3 = relevant_fedUp
  have h4: "formatMessage rateLimitedTick fedUp (analyzeSentiment fedUp)
            = Inr (message rateLimitedTick fedUp)"
    by (rule formatMessage_message) (rule sample_fields)
  have c: "articleCache (addToCache (clock rateLimitedTick (Suc (reads emptyWorld))) (articleId fedUp)
              (title fedUp) (store (titleChecked rateLimitedTick fedUp emptyWorld))) = [Some ''g1'']"
    by (simp add: addToCache_def Let_def set_add_def MAX_CACHE_SIZE_def sample_fields sample_world)
  from processArticle_records_once [OF h1 h2 h3 h4] h1 h2 h3 h4 c show ?thesis
    by (simp add: sample_world)
qed

section \<open>A delivery that fails\<close>




section \<open>A message that cannot be built\<close>

text \<open>
  Claim C10. For an item that is relevant, has neither creator nor author, and whose
  link is absent or is not a valid URL (the URL constructor throws on it), building the
  message throws. When such
  an item is reached (it is not a duplicate), the loop over the items of its feed ends
  with the exception: the items behind it are not looked at, and the feed contributes
  only the line of the error, after which the tick goes on with the next feed.
\<close>

theorem formatMessage_throw_skips_feed:
  assumes "isMarketRelevant a"
    and "\<not> truthy (creator a)" "\<not> truthy (author a)"
    and "link a = None \<or> newURL_hostname e (js_string (link a)) = Inl (Exn ''Invalid URL'')"
    and "articleId a \<notin> set (articleCache (store w))"
    and "\<not> fst (isSimilarTitleExists (clock e (reads w)) (title a) (titleCache (store w)))"
  shows "formatMessage e a s = Inl (Exn ''Invalid URL'')
    \<and> processItems e (a # items) w
        = (Some (Exn ''Invalid URL''), emit [RelevantFound (title a)] (titleChecked e a w))
    \<and> (parseURL e feedUrl = Inr (a # items) \<longrightarrow>
         processFeed e feedUrl w
           = emit [Fetching feedUrl, RelevantFound (title a), FeedError feedUrl ''Invalid URL'']
               (titleChecked e a w))"
proof -
  note throws = formatMessage_throws [OF assms(2,3,4)]
  have step: "processArticle e a w'
        = (Some (Exn ''Invalid URL''), emit [RelevantFound (title a)] (titleChecked e a w'))"
    if "store w' = store w" "reads w' = reads w" for w'
    using assms(1,5,6) that throws [of "analyzeSentiment a"]
    by (simp add: processArticle_throw)
  have items: "processItems e (a # items) w'
        = (Some (Exn ''Invalid URL''), emit [RelevantFound (title a)] (titleChecked e a w'))"
    if "store w' = store w" "reads w' = reads w" for w'
    using step [OF that] by simp
  have "processFeed e feedUrl w
           = emit [Fetching feedUrl, RelevantFound (title a), FeedError feedUrl ''Invalid URL'']
               (titleChecked e a w)"
    if "parseURL e feedUrl = Inr (a # items)"
    using that items [of "emit [Fetching feedUrl] w"]
    by (simp add: processFeed_def Let_def titleChecked_emit emit_emit)
  with throws items [of w] show ?thesis by simp
qed

theorem formatMessage_throw_skips_feed_witness:
  "isMarketRelevant noLink \<and> \<not> truthy (creator noLink) \<and> \<not> truthy (author noLink)
   \<and> link noLink = None
   \<and> articleId noLink \<notin> set (articleCache (store emptyWorld))
   \<and> \<not> fst (isSimilarTitleExists (clock brokenFeedTick (reads emptyWorld)) (title noLink)
              (titleCache (store emptyWorld)))
   \<and> parseURL brokenFeedTick ''https://finance.yahoo.com/news/rssindex'' = Inr [noLink, gdpDown]
   \<and> isMarketRelevant gdpDown
   \<and> trace (processFeed brokenFeedTick ''https://finance.yahoo.com/news/rssindex'' emptyWorld)
       = [Fetching ''https://finance.yahoo.com/news/rssindex'', RelevantFound ''Fed hikes rates'',
          FeedError ''https://finance.yahoo.com/news/rssindex'' ''Invalid URL'']"
proof -
  note h1 = relevant_noLink
  note h2 = sample_fields(12,13,14)
  have h5: "articleId noLink \<notin> set (articleCache (store emptyWorld))"
    by (simp add: sample_world)
  have h6: "\<not> fst (isSimilarTitleExists (clock brokenFeedTick (reads emptyWorld)) (title noLink)
              (titleCache (store emptyWorld)))"
    by (simp add: sample_world isSimilarTitleExists_empty)
  have p: "parseURL brokenFeedTick ''https://finance.yahoo.com/news/rssindex'' = Inr [noLink, gdpDown]"
    by (simp add: brokenFeedTick_def)
  note g = isMarketRelevant_samples(1)
  from h2(3) have l: "link noLink = None
      \<or> newURL_hostname brokenFeedTick (js_string (link noLink)) = Inl (Exn ''Invalid URL'')"
    by simp
  from formatMessage_throw_skips_feed [OF h1 h2(1,2) l h5 h6,
      of "analyzeSentiment noLink" "[gdpDown]" "''https://finance.yahoo.com/news/rssindex''"]
    h1 h2 h5 h6 p g
  show ?thesis by (simp add: sample_fields sample_world)
qed

section \<open>A tick with three alerts\<close>

text \<open>
  Claim C8 against the code: in \<open>busyTick\<close> the first feed has two relevant items and the
  second feed one, and every delivery succeeds. The trace of the tick has the three
  calls of \<open>bot.sendMessage\<close> and no wait at all, neither between the two items of the
  first feed nor between the feeds: \<open>MESSAGE_DELAY\<close> is never used.
\<close>

theorem checkNewsFeeds_no_delay:
  "trace (checkNewsFeeds busyTick emptyWorld) =
     [Checking,
      Fetching ''https://finance.yahoo.com/news/rssindex'',
      RelevantFound ''Fed up'', SendMessage (message busyTick fedUp), MessageSent,
      AddToCache (Some ''g1'') ''Fed up'',
      RelevantFound ''GDP down'', SendMessage (message busyTick gdpDown), MessageSent,
      AddToCache (Some ''g2'') ''GDP down'',
      Fetching ''https://www.marketwatch.com/rss/topstories'',
      RelevantFound ''IPO boom'', SendMessage (message busyTick ipoBoom), MessageSent,
      AddToCache (Some ''g3'') ''IPO boom'',
      Fetching ''https://www.cnbc.com/id/100003114/device/rss/rss.html'',
      Fetching ''https://economictimes.indiatimes.com/markets/rssfeeds/1977021501.cms'',
      Fetching ''https://www.moneycontrol.com/rss/market.xml'',
      Fetching ''https://www.business-standard.com/rss/markets-106.rss'']"
proof -
  let ?u1 = "''https://finance.yahoo.com/news/rssindex''"
  let ?u2 = "''https://www.marketwatch.com/rss/topstories''"
  let ?t1 = "[Checking, Fetching ?u1]"
  let ?t2 = "[Checking, Fetching ?u1,
      RelevantFound ''Fed up'', SendMessage (message busyTick fedUp), MessageSent,
      AddToCache (Some ''g1'') ''Fed up'']"
  let ?t3 = "[Checking, Fetching ?u1,
      RelevantFound ''Fed up'', SendMessage (message busyTick fedUp), MessageSent,
      AddToCache (Some ''g1'') ''Fed up'',
      RelevantFound ''GDP down'', SendMessage (message busyTick gdpDown), MessageSent,
      AddToCache (Some ''g2'') ''GDP down'']"
  let ?t4 = "[Checking, Fetching ?u1,
      RelevantFound ''Fed up'', SendMessage (message busyTick fedUp), MessageSent,
      AddToCache (Some ''g1'') ''Fed up'',
      RelevantFound ''GDP down'', SendMessage (message busyTick gdpDown), MessageSent,
      AddToCache (Some ''g2'') ''GDP down'',
      Fetching ?u2]"
  let ?t5 = "[Checking, Fetching ?u1,
      RelevantFound ''Fed up'', SendMessage (message busyTick fedUp), MessageSent,
      AddToCache (Some ''g1'') ''Fed up'',
      RelevantFound ''GDP down'', SendMessage (message busyTick gdpDown), MessageSent,
      AddToCache (Some ''g2'') ''GDP down'',
      Fetching ?u2,
      RelevantFound ''IPO boom'', SendMessage (message busyTick ipoBoom), MessageSent,
      AddToCache (Some ''g3'') ''IPO boom'']"
  let ?W1 = "\<lparr>store = \<lparr>articleCache = [], titleCache = []\<rparr>, sends = 0, reads = 0, trace = ?t1\<rparr>"
  let ?W2 = "\<lparr>store = \<lparr>articleCache = [Some ''g1''], titleCache = [(''fed up'', 1001)]\<rparr>,
              sends = Suc 0, reads = 2, trace = ?t2\<rparr>"
  let ?W3 = "\<lparr>store = \<lparr>articleCache = [Some ''g1'', Some ''g2''],
                        titleCache = [(''fed up'', 1001), (''gdp down'', 1003)]\<rparr>,
              sends = 2, reads = 4, trace = ?t3\<rparr>"
  let ?W4 = "\<lparr>store = \<lparr>articleCache = [Some ''g1'', Some ''g2''],
                        titleCache = [(''fed up'', 1001), (''gdp down'', 1003)]\<rparr>,
              sends = 2, reads = 4, trace = ?t4\<rparr>"
  let ?W5 = "\<lparr>store = \<lparr>articleCache = [Some ''g1'', Some ''g2'', Some ''g3''],
                        titleCache = [(''fed up'', 1001), (''gdp down'', 1003), (''ipo boom'', 1005)]\<rparr>,
              sends = 3, reads = 6, trace = ?t5\<rparr>"
  have ids: "articleId fedUp = Some ''g1''" "articleId gdpDown = Some ''g2''" "articleId ipoBoom = Some ''g3''"
    and titles: "title fedUp = ''Fed up''" "title gdpDown = ''GDP down''" "title ipoBoom = ''IPO boom''"
    and creators: "truthy (creator fedUp) \<or> truthy (author fedUp)"
      "truthy (creator gdpDown) \<or> truthy (author gdpDown)"
      "truthy (creator ipoBoom) \<or> truthy (author ipoBoom)"
    by (simp_all add: fedUp_def gdpDown_def ipoBoom_def articleId_def js_or_def truthy_def)
  have ck: "clock busyTick k = 1000 + int k" and sm: "sendMessage busyTick k msg = Resolved" for k msg
    by (simp_all add: busyTick_def)
  have norm: "trim (toLowerCase ''Fed up'') = ''fed up''" "trim (toLowerCase ''GDP down'') = ''gdp down''"
      "trim (toLowerCase ''IPO boom'') = ''ipo boom''"
    by code_simp+
  have sim1: "isSimilarTitleExists 1000 ''Fed up'' [] = (False, [])"
    by (simp add: isSimilarTitleExists_def)
  have sim2: "isSimilarTitleExists 1002 ''GDP down'' [(''fed up'', 1001)] = (False, [(''fed up'', 1001)])"
    by code_simp
  have sim3: "isSimilarTitleExists 1004 ''IPO boom'' [(''fed up'', 1001), (''gdp down'', 1003)]
              = (False, [(''fed up'', 1001), (''gdp down'', 1003)])"
    by code_simp
  have a1: "processArticle busyTick fedUp ?W1 = (None, ?W2)"
    using processArticle_sent [of fedUp ?W1 busyTick "[]"] relevant_fedUp creators(1)
    by (simp add: ids titles ck sm sim1 norm recordArticle_def addToCache_def Let_def set_add_def
          MAX_CACHE_SIZE_def emit_def)
  have a2: "processArticle busyTick gdpDown ?W2 = (None, ?W3)"
    using processArticle_sent [of gdpDown ?W2 busyTick "[(''fed up'', 1001)]"]
      isMarketRelevant_samples(1) creators(2)
    by (simp add: ids titles ck sm sim2 norm recordArticle_def addToCache_def Let_def set_add_def
          MAX_CACHE_SIZE_def emit_def)
  have a3: "processArticle busyTick ipoBoom ?W4 = (None, ?W5)"
    using processArticle_sent [of ipoBoom ?W4 busyTick "[(''fed up'', 1001), (''gdp down'', 1003)]"]
      isMarketRelevant_samples(2) creators(3)
    by (simp add: ids titles ck sm sim3 norm recordArticle_def addToCache_def Let_def set_add_def
          MAX_CACHE_SIZE_def emit_def)
  have p1: "parseURL busyTick ?u1 = Inr [fedUp, gdpDown]" and p2: "parseURL busyTick ?u2 = Inr [ipoBoom]"
    and p3: "parseURL busyTick ''https://www.cnbc.com/id/100003114/device/rss/rss.html'' = Inr []"
    and p4: "parseURL busyTick ''https://economictimes.indiatimes.com/markets/rssfeeds/1977021501.cms'' = Inr []"
    and p5: "parseURL busyTick ''https://www.moneycontrol.com/rss/market.xml'' = Inr []"
    and p6: "parseURL busyTick ''https://www.business-standard.com/rss/markets-106.rss'' = Inr []"
    by (simp_all add: busyTick_def)
  have f1: "processFeed busyTick ?u1 (emit [Checking] emptyWorld) = ?W3"
    by (simp add: processFeed_def p1 emit_def emptyWorld_def a1 a2)
  have f2: "processFeed busyTick ?u2 ?W3 = ?W5"
    by (simp add: processFeed_def p2 emit_def a3)
  have f3: "processFeed busyTick u w = emit [Fetching u] w" if "parseURL busyTick u = Inr []" for u w
    using that by (simp add: processFeed_def)
  show ?thesis
    by (simp add: checkNewsFeeds_def RSS_FEEDS_def f1 f2 f3 [OF p3] f3 [OF p4] f3 [OF p5] f3 [OF p6])
qed

end
